theory Spec2Isabelle
  imports Complex_Main
begin

section \<open>PyMVPA helper routines: \<open>mvpa/misc/support.py\<close> and \<open>mvpa/misc/stats.py\<close>\<close>

text \<open>
  The two modules are Python 2 code over NumPy arrays.  Conventions of the embedding:
  \<^item> Python \<open>int\<close> is \<^typ>\<open>int\<close>; the entries of the arrays of \<open>stats.py\<close> and of
    \<open>transform_with_boxcar\<close> are idealised as exact \<^typ>\<open>real\<close> numbers; the float
    arithmetic of \<open>Event.as_descrete_time\<close> is a parameter of its model;
  \<^item> a one-dimensional array is a list, a two-dimensional array a list of rows
    (all of one length);
  \<^item> an exception is the \<open>Inl\<close> side of a sum, a loop that may run forever returns
    an \<open>option\<close>, where \<open>None\<close> means that the call never returns.
\<close>

datatype error =
    ValueError string
  | IndexError
  | KeyError
  | TypeError
  | ZeroDivisionError
  | AssertionError
  | RuntimeError
  | AttributeError
  | OverflowError

subsection \<open>\<open>version_to_tuple\<close> and \<open>SmartVersion\<close> (support.py, lines 213--318)\<close>

datatype token = TInt int | TStr string

text \<open>An element of a version given as a tuple or list: an integer or a string.\<close>

datatype item = IInt int | IStr string

text \<open>The argument of \<open>version_to_tuple\<close>: a string, a tuple or list, or anything else.\<close>

datatype version_arg = VString string | VSeq "item list" | VOther

definition is_digit :: "char \<Rightarrow> bool" where
  "is_digit c = (48 \<le> (of_char c :: nat) \<and> (of_char c :: nat) \<le> 57)"

definition is_letter :: "char \<Rightarrow> bool" where
  "is_letter c = ((65 \<le> (of_char c :: nat) \<and> (of_char c :: nat) \<le> 90) \<or>
                  (97 \<le> (of_char c :: nat) \<and> (of_char c :: nat) \<le> 122))"

definition is_sign :: "char \<Rightarrow> bool" where
  "is_sign c = (c = CHR ''~'' \<or> c = CHR ''+'' \<or> c = CHR ''-'')"

definition is_space :: "char \<Rightarrow> bool" where
  "is_space c = ((of_char c :: nat) = 32 \<or> (9 \<le> (of_char c :: nat) \<and> (of_char c :: nat) \<le> 13))"

definition is_newline :: "char \<Rightarrow> bool" where
  "is_newline c = ((of_char c :: nat) = 10)"

definition digits_to_int :: "string \<Rightarrow> int" where
  "digits_to_int ds = foldl (\<lambda>a c. 10 * a + (int (of_char c) - 48)) 0 ds"

text \<open>
  The builtin \<open>int(x)\<close> on a string: surrounding whitespace is dropped, one sign is
  allowed, the rest must be a non-empty run of decimal digits; \<open>None\<close> stands for the
  \<open>ValueError\<close> that \<open>version_to_tuple\<close> catches.
\<close>

definition digits_int :: "string \<Rightarrow> int option" where
  "digits_int ds = (if ds \<noteq> [] \<and> list_all is_digit ds then Some (digits_to_int ds) else None)"

definition strip :: "string \<Rightarrow> string" where
  "strip s = rev (dropWhile is_space (rev (dropWhile is_space s)))"

definition py_int :: "string \<Rightarrow> int option" where
  "py_int x =
     (case strip x of
        [] \<Rightarrow> None
      | c # cs \<Rightarrow>
          if c = CHR ''-'' then map_option uminus (digits_int cs)
          else if c = CHR ''+'' then digits_int cs
          else digits_int (c # cs))"

text \<open>\<open>str.split(sep)\<close> for a one-character separator.\<close>

fun split_on :: "char \<Rightarrow> string \<Rightarrow> string list" where
  "split_on sep [] = [[]]"
| "split_on sep (c # cs) =
     (if c = sep then [] # split_on sep cs
      else (case split_on sep cs of
              [] \<Rightarrow> [[c]]
            | w # ws \<Rightarrow> (c # w) # ws))"

text \<open>
  \<open>regex.search(suffix)\<close> for the pattern
  \<^verbatim>\<open>(?P<numeric>[0-9]*)(?P<alpha>[~+-]*[A-Za-z]*)(?P<suffix>.*)\<close>:
  every group may be empty, so the search succeeds at position 0 of every string;
  the groups are the longest digit run, the longest run of signs followed by the
  longest run of letters, and the rest of the line (\<open>.\<close> stops at a newline).
\<close>

definition regex_search :: "string \<Rightarrow> (string \<times> string \<times> string) option" where
  "regex_search s =
     (let numeric = takeWhile is_digit s;
          r1 = dropWhile is_digit s;
          signs = takeWhile is_sign r1;
          r2 = dropWhile is_sign r1;
          letters = takeWhile is_letter r2;
          r3 = dropWhile is_letter r2
      in Some (numeric, signs @ letters, takeWhile (\<lambda>c. \<not> is_newline c) r3))"

text \<open>
  The \<open>while suffix != ''\<close> loop (lines 238--250).  The \<open>else\<close> branch of the source
  (\<open>resd += [suffix]\<close>, an error: \<open>resd\<close> is unbound or a dict) is the \<open>None\<close> case.
\<close>

partial_function (option) split_tokens :: "string \<Rightarrow> token list \<Rightarrow> (error + token list) option" where
  "split_tokens suffix vres =
     (if suffix = [] then Some (Inr vres)
      else (case regex_search suffix of
              None \<Rightarrow> Some (Inl TypeError)
            | Some res \<Rightarrow>
                split_tokens (snd (snd res))
                  (vres @ (if fst res \<noteq> [] then [TInt (digits_to_int (fst res))] else [])
                        @ (if fst (snd res) \<noteq> [] then [TStr (fst (snd res))] else []))))"

declare split_tokens.simps [code]

text \<open>
  The characters the pattern has a class for, and a segment that holds another
  character on its first line.
\<close>

definition classified :: "char \<Rightarrow> bool" where
  "classified c = (is_digit c \<or> is_sign c \<or> is_letter c)"

definition unclassifiable :: "char \<Rightarrow> bool" where
  "unclassifiable c = (\<not> is_digit c \<and> \<not> is_sign c \<and> \<not> is_letter c \<and> \<not> is_newline c)"

definition has_unclassifiable :: "string \<Rightarrow> bool" where
  "has_unclassifiable s = list_ex (\<lambda>c. \<not> classified c) (takeWhile (\<lambda>c. \<not> is_newline c) s)"

text \<open>The \<open>for x in v\<close> loop (lines 232--250).\<close>

fun convert_items :: "item list \<Rightarrow> token list \<Rightarrow> (error + token list) option" where
  "convert_items [] vres = Some (Inr vres)"
| "convert_items (IInt n # xs) vres = convert_items xs (vres @ [TInt n])"
| "convert_items (IStr x # xs) vres =
     (case py_int x of
        Some n \<Rightarrow> convert_items xs (vres @ [TInt n])
      | None \<Rightarrow>
          (case split_tokens x vres of
             None \<Rightarrow> None
           | Some (Inl e) \<Rightarrow> Some (Inl e)
           | Some (Inr vres') \<Rightarrow> convert_items xs vres'))"

definition version_to_tuple :: "version_arg \<Rightarrow> (error + token list) option" where
  "version_to_tuple v =
     (case v of
        VString s \<Rightarrow> convert_items (map IStr (split_on CHR ''.'' s)) []
      | VSeq xs \<Rightarrow> convert_items xs []
      | VOther \<Rightarrow> Some (Inl (ValueError ''Do not know how to treat version'')))"

text \<open>
  \<open>SmartVersion\<close> derives from \<open>distutils.version.Version\<close>, whose constructor calls
  \<open>parse\<close> only for a non-empty argument; otherwise the attributes stay unset.
\<close>

record SmartVersion =
  vstring :: "version_arg option"
  version :: "token list option"

definition falsy :: "version_arg \<Rightarrow> bool" where
  "falsy v = (v = VString [] \<or> v = VSeq [])"

definition SmartVersion_init :: "version_arg \<Rightarrow> (error + SmartVersion) option" where
  "SmartVersion_init v =
     (if falsy v then Some (Inr \<lparr>vstring = None, version = None\<rparr>)
      else (case version_to_tuple v of
              None \<Rightarrow> None
            | Some (Inl e) \<Rightarrow> Some (Inl e)
            | Some (Inr t) \<Rightarrow> Some (Inr \<lparr>vstring = Some v, version = Some t\<rparr>)))"

definition lower_ascii :: "char \<Rightarrow> char" where
  "lower_ascii c =
     (if 65 \<le> (of_char c :: nat) \<and> (of_char c :: nat) \<le> 90
      then char_of ((of_char c :: nat) + 32) else c)"

definition starts_with :: "string \<Rightarrow> string \<Rightarrow> bool" where
  "starts_with w s = (take (length w) s = w)"

text \<open>
  \<open>regex_prerelease.match(y)\<close> for
  \<^verbatim>\<open>~|-?dev|-?rc|-?svn|-?pre|-?beta|-?alpha\<close> with \<open>re.I\<close>: a match at the start
  of \<open>y\<close>, letters compared without case.
\<close>

definition regex_prerelease_match :: "string \<Rightarrow> bool" where
  "regex_prerelease_match y =
     (let z = map lower_ascii y in
        starts_with ''~'' z \<or>
        list_ex (\<lambda>w. starts_with w z \<or> starts_with (CHR ''-'' # w) z)
          [''dev'', ''rc'', ''svn'', ''pre'', ''beta'', ''alpha''])"

definition cmp_int :: "int \<Rightarrow> int \<Rightarrow> int" where
  "cmp_int x y = (if x < y then - 1 else if x = y then 0 else 1)"

text \<open>\<open>cmp\<close> on two byte strings: lexicographic in the character codes.\<close>

fun cmp_str :: "string \<Rightarrow> string \<Rightarrow> int" where
  "cmp_str [] [] = 0"
| "cmp_str [] (y # ys) = - 1"
| "cmp_str (x # xs) [] = 1"
| "cmp_str (x # xs) (y # ys) =
     (if (of_char x :: nat) < of_char y then - 1
      else if (of_char y :: nat) < of_char x then 1
      else cmp_str xs ys)"

text \<open>
  One round of \<open>for x,y,mult in ((si, oi, 1), (oi, si, -1))\<close> (lines 298--317):
  \<open>Some r\<close> when the round returns or raises, \<open>None\<close> when it falls through.
\<close>

fun cmp_round :: "token option \<Rightarrow> token option \<Rightarrow> int \<Rightarrow> (error + int) option" where
  "cmp_round None (Some (TInt y)) mult = Some (Inr (- mult))"
| "cmp_round None (Some (TStr y)) mult =
     Some (Inr (if regex_prerelease_match y then mult else - mult))"
| "cmp_round None None mult = Some (Inl RuntimeError)"
| "cmp_round (Some (TInt x)) (Some (TInt y)) mult = Some (Inr (mult * cmp_int x y))"
| "cmp_round (Some (TInt x)) y mult = Some (Inr mult)"
| "cmp_round (Some (TStr x)) (Some (TStr y)) mult = Some (Inr (mult * cmp_str x y))"
| "cmp_round (Some (TStr x)) y mult = None"

text \<open>The body of the loop over positions, given the result of the later positions.\<close>

definition cmp_position :: "token option \<Rightarrow> token option \<Rightarrow> error + int \<Rightarrow> error + int" where
  "cmp_position si oi later =
     (if si = oi then later
      else (case cmp_round si oi 1 of
              Some r \<Rightarrow> r
            | None \<Rightarrow>
                (case cmp_round oi si (- 1) of
                   Some r \<Rightarrow> r
                 | None \<Rightarrow> later)))"

text \<open>
  \<open>for i in xrange(max(len(s), len(o)))\<close>, a missing element read as \<open>None\<close>;
  \<open>return 0\<close> after the loop.
\<close>

fun cmp_versions :: "token list \<Rightarrow> token list \<Rightarrow> error + int" where
  "cmp_versions [] [] = Inr 0"
| "cmp_versions (a # s) [] = cmp_position (Some a) None (cmp_versions s [])"
| "cmp_versions [] (b # ov) = cmp_position None (Some b) (cmp_versions [] ov)"
| "cmp_versions (a # s) (b # ov) = cmp_position (Some a) (Some b) (cmp_versions s ov)"

text \<open>The second argument of \<open>__cmp__\<close>.\<close>

datatype other_arg =
    ORaw version_arg
  | OSmart SmartVersion
  | OVersion version_arg

definition SmartVersion_cmp :: "SmartVersion \<Rightarrow> other_arg \<Rightarrow> (error + int) option" where
  "SmartVersion_cmp self other =
     (let conv =
        (case other of
           ORaw VOther \<Rightarrow> Some (Inl (ValueError ''Do not know how to treat version''))
         | ORaw v \<Rightarrow> SmartVersion_init v
         | OSmart sv \<Rightarrow> Some (Inr sv)
         | OVersion v \<Rightarrow> SmartVersion_init v)
      in case conv of
           None \<Rightarrow> None
         | Some (Inl e) \<Rightarrow> Some (Inl e)
         | Some (Inr ov) \<Rightarrow>
             (case (version self, version ov) of
                (Some s, Some t) \<Rightarrow> Some (cmp_versions s t)
              | _ \<Rightarrow> Some (Inl AttributeError)))"

text \<open>
  The expression \<open>SmartVersion(a) < SmartVersion(b)\<close>: both objects are built, then
  Python 2 evaluates \<open>__cmp__\<close> and tests the result against 0.
\<close>

definition SmartVersion_lt :: "version_arg \<Rightarrow> version_arg \<Rightarrow> (error + bool) option" where
  "SmartVersion_lt a b =
     (case SmartVersion_init a of
        None \<Rightarrow> None
      | Some (Inl e) \<Rightarrow> Some (Inl e)
      | Some (Inr x) \<Rightarrow>
          (case SmartVersion_init b of
             None \<Rightarrow> None
           | Some (Inl e) \<Rightarrow> Some (Inl e)
           | Some (Inr y) \<Rightarrow>
               (case SmartVersion_cmp x (OSmart y) of
                  None \<Rightarrow> None
                | Some (Inl e) \<Rightarrow> Some (Inl e)
                | Some (Inr c) \<Rightarrow> Some (Inr (c < 0)))))"

subsection \<open>\<open>mask2slice\<close> (support.py, lines 546--583)\<close>

text \<open>The value returned: a \<open>slice(start, stop, step)\<close> or the mask itself.\<close>

datatype slice_or_mask = Slice int int "int option" | Mask "bool list"

text \<open>\<open>mask.nonzero()[0]\<close>: the positions of the true elements, ascending.\<close>

definition nonzero :: "bool list \<Rightarrow> int list" where
  "nonzero msk = map int (filter (\<lambda>i. msk ! i) [0..<length msk])"

text \<open>\<open>idx[1:] - idx[:-1]\<close>: elementwise difference of neighbours.\<close>

definition neighbour_diffs :: "int list \<Rightarrow> int list" where
  "neighbour_diffs idx = map (\<lambda>(a, b). a - b) (zip (tl idx) (butlast idx))"

text \<open>\<open>np.unique\<close>: the distinct values, sorted.\<close>

definition np_unique :: "int list \<Rightarrow> int list" where
  "np_unique xs = sort (remdups xs)"

definition mask2slice :: "bool list \<Rightarrow> error + slice_or_mask" where
  "mask2slice msk =
     (if length msk = 0 then Inl (ValueError ''Got an empty mask.'')
      else
        let idx = nonzero msk in
        if idx = [] then Inl IndexError
        else
          let idx_start = hd idx;
              idx_end = last idx + 1
          in
            if length idx > 1 then
              (let stepsizes = np_unique (neighbour_diffs idx) in
                 if length stepsizes > 1 then Inr (Mask msk)
                 else Inr (Slice idx_start idx_end (Some (hd stepsizes))))
            else Inr (Slice idx_start idx_end None))"

text \<open>
  Two true positions with no true position between them: their distance is one of
  the gap sizes of the mask.
\<close>

definition adjacent_true :: "bool list \<Rightarrow> nat \<Rightarrow> nat \<Rightarrow> bool" where
  "adjacent_true msk a b =
     (a < b \<and> b < length msk \<and> msk ! a \<and> msk ! b \<and> (\<forall>i. a < i \<and> i < b \<longrightarrow> \<not> msk ! i))"

subsection \<open>\<open>transform_with_boxcar\<close> (support.py, lines 46--82)\<close>

text \<open>
  \<open>data[np.array(box)]\<close>: the rows of \<open>data\<close> at the positions of \<open>box\<close>; a negative
  position counts from the end, a position outside the array raises \<open>IndexError\<close>.
\<close>

definition take_rows :: "'a list \<Rightarrow> int list \<Rightarrow> error + 'a list" where
  "take_rows data box =
     (let n = int (length data) in
        if list_all (\<lambda>k. - n \<le> k \<and> k < n) box
        then Inr (map (\<lambda>k. data ! nat (if k < 0 then k + n else k)) box)
        else Inl IndexError)"

text \<open>Running a list of fallible steps: the first error wins.\<close>

fun collect :: "(error + 'a) list \<Rightarrow> error + 'a list" where
  "collect [] = Inr []"
| "collect (Inl e # rs) = Inl e"
| "collect (Inr x # rs) = (case collect rs of Inl e \<Rightarrow> Inl e | Inr xs \<Rightarrow> Inr (x # xs))"

text \<open>
  \<open>fx\<close> is the reduction applied to the rows of one window (\<open>axis=0\<close>);
  \<open>range(a, b)\<close> is \<open>[a..b - 1]\<close>.
\<close>

definition transform_with_boxcar ::
  "'a list \<Rightarrow> int list \<Rightarrow> int \<Rightarrow> int \<Rightarrow> ('a list \<Rightarrow> 'b) \<Rightarrow> error + 'b list" where
  "transform_with_boxcar data startpoints boxlength offset fx =
     (if boxlength < 1 then Inl (ValueError ''Boxlength lower than 1 makes no sense.'')
      else if list_ex (\<lambda>sp. sp + offset + boxlength - 1 > int (length data) - 1
                             \<or> sp + offset < 0) startpoints
      then Inl (ValueError ''Illegal box'')
      else
        let selector = map (\<lambda>i. [i + offset .. i + offset + boxlength - 1]) startpoints
        in collect (map (\<lambda>box. map_sum id fx (take_rows data box)) selector))"

text \<open>The default reduction \<open>np.mean(..., axis=0)\<close> on windows of a one-dimensional array.\<close>

definition np_mean :: "real list \<Rightarrow> real" where
  "np_mean xs = sum_list xs / real (length xs)"

subsection \<open>\<open>Event.as_descrete_time\<close> (support.py, lines 424--511)\<close>

text \<open>
  The values an event holds: Python integers, floats, and anything else (labels,
  chunks, feature lists), kept as an opaque string.  The type \<open>'f\<close> is the type of
  floats: the method computes in binary floating point, whose results are rounded and
  may be infinite or not a number, so the float operations are not taken to be those
  of the real numbers but are parameters of the model.
\<close>

datatype 'f pyval = PInt int | PFloat 'f | POther string

type_synonym 'f pydict = "string \<rightharpoonup> 'f pyval"

text \<open>
  The float arithmetic of the platform: the conversion of an integer to a float
  (\<open>OverflowError\<close> when it is too large), \<open>int(x)\<close> on a float (an error on an
  infinity or a NaN), the test \<open>x == 0.0\<close>, the four operations, and \<open>np.floor\<close> and
  \<open>np.ceil\<close>, which return floats.
\<close>

record 'f arith =
  flt_of_int :: "int \<Rightarrow> error + 'f"
  flt_to_int :: "'f \<Rightarrow> error + int"
  flt_is_zero :: "'f \<Rightarrow> bool"
  flt_add :: "'f \<Rightarrow> 'f \<Rightarrow> 'f"
  flt_sub :: "'f \<Rightarrow> 'f \<Rightarrow> 'f"
  flt_mul :: "'f \<Rightarrow> 'f \<Rightarrow> 'f"
  flt_div :: "'f \<Rightarrow> 'f \<Rightarrow> 'f"
  flt_floor :: "'f \<Rightarrow> 'f"
  flt_ceil :: "'f \<Rightarrow> 'f"

text \<open>Sequencing of steps that may raise: the first exception ends the computation.\<close>

definition bind_err :: "error + 'a \<Rightarrow> ('a \<Rightarrow> error + 'b) \<Rightarrow> error + 'b" where
  "bind_err r f = (case r of Inl e \<Rightarrow> Inl e | Inr x \<Rightarrow> f x)"

text \<open>
  A value as an operand of float arithmetic: an integer is converted, anything but
  a number raises \<open>TypeError\<close>.
\<close>

definition to_float :: "'f arith \<Rightarrow> 'f pyval \<Rightarrow> error + 'f" where
  "to_float A v =
     (case v of
        PInt i \<Rightarrow> flt_of_int A i
      | PFloat x \<Rightarrow> Inr x
      | POther s \<Rightarrow> Inl TypeError)"

text \<open>
  \<open>x + y\<close>, \<open>x - y\<close> and \<open>x * y\<close>: exact on two integers, in floats as soon as one
  operand is a float.
\<close>

definition py_add :: "'f arith \<Rightarrow> 'f pyval \<Rightarrow> 'f pyval \<Rightarrow> error + 'f pyval" where
  "py_add A x y =
     (case (x, y) of
        (PInt a, PInt b) \<Rightarrow> Inr (PInt (a + b))
      | _ \<Rightarrow> bind_err (to_float A x) (\<lambda>a. bind_err (to_float A y) (\<lambda>b. Inr (PFloat (flt_add A a b)))))"

definition py_sub :: "'f arith \<Rightarrow> 'f pyval \<Rightarrow> 'f pyval \<Rightarrow> error + 'f pyval" where
  "py_sub A x y =
     (case (x, y) of
        (PInt a, PInt b) \<Rightarrow> Inr (PInt (a - b))
      | _ \<Rightarrow> bind_err (to_float A x) (\<lambda>a. bind_err (to_float A y) (\<lambda>b. Inr (PFloat (flt_sub A a b)))))"

definition py_mul :: "'f arith \<Rightarrow> 'f pyval \<Rightarrow> 'f pyval \<Rightarrow> error + 'f pyval" where
  "py_mul A x y =
     (case (x, y) of
        (PInt a, PInt b) \<Rightarrow> Inr (PInt (a * b))
      | _ \<Rightarrow> bind_err (to_float A x) (\<lambda>a. bind_err (to_float A y) (\<lambda>b. Inr (PFloat (flt_mul A a b)))))"

text \<open>\<open>x / dt\<close> for the float \<open>dt\<close>: \<open>ZeroDivisionError\<close> when \<open>dt\<close> is zero.\<close>

definition div_float :: "'f arith \<Rightarrow> 'f pyval \<Rightarrow> 'f \<Rightarrow> error + 'f" where
  "div_float A x dt =
     bind_err (to_float A x)
       (\<lambda>a. if flt_is_zero A dt then Inl ZeroDivisionError else Inr (flt_div A a dt))"

text \<open>\<open>int(v)\<close>.\<close>

definition py_int_of :: "'f arith \<Rightarrow> 'f pyval \<Rightarrow> error + int" where
  "py_int_of A v =
     (case v of
        PInt i \<Rightarrow> Inr i
      | PFloat x \<Rightarrow> flt_to_int A x
      | POther s \<Rightarrow> Inl TypeError)"

text \<open>
  Events are objects: the store is a list of dictionaries, a reference is a position
  in it.  \<open>copy(self)\<close> allocates a new dictionary with the same items.
\<close>

type_synonym 'f store = "'f pydict list"

definition copy_obj :: "'f store \<Rightarrow> nat \<Rightarrow> nat \<times> 'f store" where
  "copy_obj h r = (length h, h @ [h ! r])"

definition setitem :: "'f store \<Rightarrow> nat \<Rightarrow> string \<Rightarrow> 'f pyval \<Rightarrow> 'f store" where
  "setitem h r k v = h[r := (h ! r)(k \<mapsto> v)]"

text \<open>\<open>d[k]\<close> on the object at \<open>r\<close>; a missing key raises \<open>KeyError\<close>.\<close>

definition getitem :: "'f store \<Rightarrow> nat \<Rightarrow> string \<Rightarrow> error + 'f pyval" where
  "getitem h r k = (case (h ! r) k of None \<Rightarrow> Inl KeyError | Some v \<Rightarrow> Inr v)"

text \<open>Line 498, right-hand side: \<open>int(np.floor(onset / dt))\<close>.\<close>

definition new_onset :: "'f arith \<Rightarrow> 'f pyval \<Rightarrow> 'f \<Rightarrow> error + int" where
  "new_onset A onset dt =
     bind_err (div_float A onset dt) (\<lambda>q. flt_to_int A (flt_floor A q))"

text \<open>
  Lines 500--503: \<open>offset = onset - (out['onset'] * dt)\<close>, \<open>out[offsetattr] = offset\<close>.
\<close>

definition store_offset ::
  "'f arith \<Rightarrow> 'f store \<Rightarrow> nat \<Rightarrow> 'f pyval \<Rightarrow> 'f \<Rightarrow> string \<Rightarrow> error + 'f store" where
  "store_offset A h out onset dt offsetattr =
     bind_err (getitem h out ''onset'')
       (\<lambda>o1. bind_err (py_mul A o1 (PFloat dt))
          (\<lambda>p. bind_err (py_sub A onset p)
             (\<lambda>offset. Inr (setitem h out offsetattr offset))))"

text \<open>
  Lines 505--509: \<open>if out.has_key('duration')\<close>,
  \<open>out['duration'] = int(np.ceil((onset + out['duration']) / dt) - out['onset'])\<close>.
\<close>

definition store_duration ::
  "'f arith \<Rightarrow> 'f store \<Rightarrow> nat \<Rightarrow> 'f pyval \<Rightarrow> 'f \<Rightarrow> error + 'f store" where
  "store_duration A h out onset dt =
     (if ''duration'' \<in> dom (h ! out) then
        bind_err (getitem h out ''duration'')
          (\<lambda>d. bind_err (py_add A onset d)
             (\<lambda>s. bind_err (div_float A s dt)
                (\<lambda>q. bind_err (getitem h out ''onset'')
                   (\<lambda>o2. bind_err (py_sub A (PFloat (flt_ceil A q)) o2)
                      (\<lambda>diff. bind_err (py_int_of A diff)
                         (\<lambda>m. Inr (setitem h out ''duration'' (PInt m))))))))
      else Inr h)"

text \<open>
  The method, on a store \<open>h\<close> in which \<open>self\<close> is an event, with \<open>dt\<close> the value of
  \<open>float(dt)\<close>: the result (a reference to the new event, or the exception raised) and
  the store after the call.  Every read of \<open>out[...]\<close> goes to the store, as in the
  source.
\<close>

definition as_descrete_time ::
  "'f arith \<Rightarrow> 'f store \<Rightarrow> nat \<Rightarrow> 'f \<Rightarrow> bool \<Rightarrow> string \<Rightarrow> (error + nat) \<times> 'f store" where
  "as_descrete_time A h self dt storeoffset offsetattr =
     (case getitem h self ''onset'' of
        Inl e \<Rightarrow> (Inl e, h)
      | Inr onset \<Rightarrow>
          (case copy_obj h self of
             (out, h1) \<Rightarrow>
               (case new_onset A onset dt of
                  Inl e \<Rightarrow> (Inl e, h1)
                | Inr n \<Rightarrow>
                    (let h2 = setitem h1 out ''onset'' (PInt n) in
                       (case (if storeoffset then store_offset A h2 out onset dt offsetattr
                              else Inr h2) of
                          Inl e \<Rightarrow> (Inl e, h2)
                        | Inr h3 \<Rightarrow>
                            (case store_duration A h3 out onset dt of
                               Inl e \<Rightarrow> (Inl e, h3)
                             | Inr h4 \<Rightarrow> (Inr out, h4)))))))"

text \<open>
  An arithmetic without rounding, on the real numbers, for evaluating the definitions
  on inputs for which every operation is exact in binary floating point as well
  (small integers and halves).
\<close>

definition exact_arith :: "real arith" where
  "exact_arith =
     \<lparr>flt_of_int = (\<lambda>i. Inr (real_of_int i)),
      flt_to_int = (\<lambda>x. Inr (if 0 \<le> x then \<lfloor>x\<rfloor> else \<lceil>x\<rceil>)),
      flt_is_zero = (\<lambda>x. x = 0),
      flt_add = (\<lambda>x y. x + y),
      flt_sub = (\<lambda>x y. x - y),
      flt_mul = (\<lambda>x y. x * y),
      flt_div = (\<lambda>x y. x / y),
      flt_floor = (\<lambda>x. real_of_int \<lfloor>x\<rfloor>),
      flt_ceil = (\<lambda>x. real_of_int \<lceil>x\<rceil>)\<rparr>"

subsection \<open>\<open>chisquare\<close> (stats.py, lines 21--81)\<close>

text \<open>
  The argument \<open>exp\<close>: a string naming a rule, or an array of expected values.
\<close>

datatype exp_spec = ExpName string | ExpArray "real list list"

definition shape :: "real list list \<Rightarrow> nat \<times> nat" where
  "shape m = (length m, if m = [] then 0 else length (hd m))"

text \<open>\<open>np.sum(obs, axis=0)[j]\<close>: the sum of column \<open>j\<close>.\<close>

definition col_sum :: "real list list \<Rightarrow> nat \<Rightarrow> real" where
  "col_sum obs j = sum_list (map (\<lambda>row. row ! j) obs)"

text \<open>
  Lines 46--66: the matrix of expected values.  \<open>ones\<close> is the all-ones float matrix of
  the shape of \<open>obs\<close>; each entry is computed as in the source.
\<close>

definition expected :: "real list list \<Rightarrow> exp_spec \<Rightarrow> error + real list list" where
  "expected obs expv =
     (let nobs = sum_list (concat obs);
          nrows = fst (shape obs);
          ncols = snd (shape obs)
      in case expv of
           ExpName name \<Rightarrow>
             if name = ''indep_rows'' then
               Inr (map (\<lambda>row. map (\<lambda>j. col_sum obs j * 1 / real nrows) [0..<ncols]) obs)
             else if name = ''indep_cols'' then
               Inr (map (\<lambda>row. map (\<lambda>j. sum_list row * 1 / real ncols) [0..<ncols]) obs)
             else if name = ''uniform'' then
               Inr (map (\<lambda>row. map (\<lambda>j. nobs * 1 / real (nrows * ncols)) [0..<ncols]) obs)
             else Inl (ValueError ''Unknown specification of expected values'')
         | ExpArray e \<Rightarrow>
             if shape e = shape obs then Inr e else Inl AssertionError)"

text \<open>
  Lines 68--81.  The boolean masks \<open>exp_zeros\<close> and \<open>exp_nonzeros\<close> select cells of the
  flattened arrays; \<open>chisqprob\<close> is \<open>scipy.stats.chisqprob\<close>.
\<close>

definition chisquare ::
  "(real \<Rightarrow> int \<Rightarrow> real) \<Rightarrow> real list list \<Rightarrow> exp_spec \<Rightarrow> error + (real \<times> real)" where
  "chisquare chisqprob obs expv =
     (case expected obs expv of
        Inl e \<Rightarrow> Inl e
      | Inr ex \<Rightarrow>
          let cells = zip (concat obs) (concat ex);
              exp_zeros = filter (\<lambda>(ob, e). e = 0) cells;
              exp_nonzeros = filter (\<lambda>(ob, e). e \<noteq> 0) cells
          in
            if length exp_zeros \<noteq> 0 \<and> list_ex (\<lambda>(ob, e). ob \<noteq> 0) exp_zeros
            then Inl (ValueError ''chisquare: Expected values have 0-values'')
            else
              let chisq = sum_list (map (\<lambda>(ob, e). (ob - e)\<^sup>2 / e) exp_nonzeros)
              in Inr (chisq, chisqprob chisq (int (length exp_nonzeros) - 1)))"

text \<open>
  Notions the statements about \<open>chisquare\<close> use: a rectangular matrix with at
  least one row (the list of its rows; \<open>np.array([])\<close> is one-dimensional), a valid
  specification of the expected values, a cell whose expected value is zero while
  its observed value is not, the Pearson statistic summed over the cells with a
  non-zero expected value, and the number of those cells.
\<close>

definition is_matrix :: "real list list \<Rightarrow> bool" where
  "is_matrix m = (m \<noteq> [] \<and> list_all (\<lambda>row. length row = snd (shape m)) m)"

definition valid_exp :: "real list list \<Rightarrow> exp_spec \<Rightarrow> bool" where
  "valid_exp obs expv =
     (case expv of
        ExpName name \<Rightarrow> name = ''uniform'' \<or> name = ''indep_rows'' \<or> name = ''indep_cols''
      | ExpArray e \<Rightarrow> is_matrix e \<and> shape e = shape obs)"

definition undefined_cell :: "real list list \<Rightarrow> real list list \<Rightarrow> bool" where
  "undefined_cell obs E = (\<exists>i<length obs. \<exists>j<length (obs ! i). E ! i ! j = 0 \<and> obs ! i ! j \<noteq> 0)"

definition pearson_statistic :: "real list list \<Rightarrow> real list list \<Rightarrow> real" where
  "pearson_statistic obs E =
     (\<Sum>i<length obs. \<Sum>j<length (obs ! i).
        if E ! i ! j \<noteq> 0 then (obs ! i ! j - E ! i ! j)\<^sup>2 / E ! i ! j else 0)"

definition nonzero_expected_cells :: "real list list \<Rightarrow> real list list \<Rightarrow> nat" where
  "nonzero_expected_cells obs E =
     card {(i, j). i < length obs \<and> j < length (obs ! i) \<and> E ! i ! j \<noteq> 0}"

subsection \<open>\<open>DSMatrix\<close> (stats.py, lines 84--226)\<close>

text \<open>The exemplars: a one-dimensional array, or a two-dimensional one (a row each).\<close>

datatype ndarray = Arr1 "real list" | Arr2 "real list list"

record DSMatrix =
  full_matrix :: "real list list"
  u_triangle :: "real list list option"
  vector_form :: "real list option"
  metric :: string

definition np_shape0 :: "ndarray \<Rightarrow> nat" where
  "np_shape0 d = (case d of Arr1 xs \<Rightarrow> length xs | Arr2 rows \<Rightarrow> length rows)"

definition np_size :: "ndarray \<Rightarrow> nat" where
  "np_size d = (case d of Arr1 xs \<Rightarrow> length xs | Arr2 rows \<Rightarrow> length (concat rows))"

text \<open>\<open>data_vectors[i]\<close>: a scalar of a 1-D array (kept as a one-element list), a row of a 2-D one.\<close>

definition elem :: "ndarray \<Rightarrow> nat \<Rightarrow> real list" where
  "elem d i = (case d of Arr1 xs \<Rightarrow> [xs ! i] | Arr2 rows \<Rightarrow> rows ! i)"

text \<open>\<open>data_vectors[i, :]\<close>: the row of a 2-D array; too many indices for a 1-D one.\<close>

definition row_at :: "ndarray \<Rightarrow> nat \<Rightarrow> error + real list" where
  "row_at d i = (case d of Arr1 xs \<Rightarrow> Inl IndexError | Arr2 rows \<Rightarrow> Inr (rows ! i))"

definition vsub :: "real list \<Rightarrow> real list \<Rightarrow> real list" where
  "vsub u v = map (\<lambda>(a, b). a - b) (zip u v)"

text \<open>\<open>np.linalg.norm\<close>: the square root of the sum of squares.\<close>

definition linalg_norm :: "real list \<Rightarrow> real" where
  "linalg_norm v = sqrt (sum_list (map (\<lambda>x. x\<^sup>2) v))"

text \<open>\<open>np.sum((u == v).astype(np.int32))\<close>: the number of positions that agree.\<close>

definition count_equal :: "real list \<Rightarrow> real list \<Rightarrow> int" where
  "count_equal u v = int (length (filter (\<lambda>(a, b). a = b) (zip u v)))"

text \<open>
  One entry \<open>dsmatrix[i, j]\<close> (lines 123--168).  \<open>spearmanr\<close> and \<open>pearsonr\<close> stand for the
  first component of the results of \<open>scipy.stats.spearmanr\<close> and \<open>scipy.stats.pearsonr\<close>.
  An unknown metric leaves the zero of \<open>np.zeros\<close>.  The quotient of the confusion
  metric is the integer division of Python 2; with no features NumPy gives 0 for the
  division by zero, as \<open>div\<close> does.
\<close>

definition ds_entry ::
  "(real list \<Rightarrow> real list \<Rightarrow> real) \<Rightarrow> (real list \<Rightarrow> real list \<Rightarrow> real) \<Rightarrow>
   ndarray \<Rightarrow> string \<Rightarrow> bool \<Rightarrow> nat \<Rightarrow> nat \<Rightarrow> nat \<Rightarrow> error + real" where
  "ds_entry spearmanr pearsonr d mtr flag_1d num_features i j =
     (if mtr = ''euclidean'' then
        (if \<not> flag_1d then
           (case (row_at d i, row_at d j) of
              (Inr u, Inr v) \<Rightarrow> Inr (linalg_norm (vsub u v))
            | _ \<Rightarrow> Inl IndexError)
         else Inr (linalg_norm (vsub (elem d i) (elem d j))))
      else if mtr = ''spearman'' then
        (case (row_at d i, row_at d j) of
           (Inr u, Inr v) \<Rightarrow> Inr (1 - spearmanr u v)
         | _ \<Rightarrow> Inl IndexError)
      else if mtr = ''pearson'' then
        (case (row_at d i, row_at d j) of
           (Inr u, Inr v) \<Rightarrow> Inr (1 - pearsonr u v)
         | _ \<Rightarrow> Inl IndexError)
      else if mtr = ''confusion'' then
        (if \<not> flag_1d then
           (case (row_at d i, row_at d j) of
              (Inr u, Inr v) \<Rightarrow> Inr (1 - real_of_int (count_equal u v div int num_features))
            | _ \<Rightarrow> Inl IndexError)
         else Inr (1 - (if elem d i = elem d j then 1 else 0)))
      else Inr 0)"

text \<open>The constructor (lines 90--170): the two nested loops fill the matrix row by row.\<close>

definition DSMatrix_init ::
  "(real list \<Rightarrow> real list \<Rightarrow> real) \<Rightarrow> (real list \<Rightarrow> real list \<Rightarrow> real) \<Rightarrow>
   ndarray \<Rightarrow> string \<Rightarrow> error + DSMatrix" where
  "DSMatrix_init spearmanr pearsonr data_vectors mtr =
     (let num_exem = np_shape0 data_vectors;
          flag_1d = (num_exem = np_size data_vectors);
          num_features =
            (if \<not> flag_1d
             then (case data_vectors of Arr2 rows \<Rightarrow> length (hd rows) | Arr1 xs \<Rightarrow> 1)
             else 1)
      in case collect
                (map (\<lambda>i. collect
                             (map (\<lambda>j. ds_entry spearmanr pearsonr data_vectors mtr
                                          flag_1d num_features i j)
                                [0..<num_exem]))
                   [0..<num_exem]) of
           Inl e \<Rightarrow> Inl e
         | Inr dsmatrix \<Rightarrow>
             Inr \<lparr>full_matrix = dsmatrix, u_triangle = None, vector_form = None,
                  metric = mtr\<rparr>)"

definition get_full_matrix :: "DSMatrix \<Rightarrow> real list list" where
  "get_full_matrix self = full_matrix self"

definition get_metric :: "DSMatrix \<Rightarrow> string" where
  "get_metric self = metric self"

text \<open>\<open>np.triu\<close>: the entries below the diagonal are replaced by zero.\<close>

definition np_triu :: "real list list \<Rightarrow> real list list" where
  "np_triu m =
     map (\<lambda>(i, row). map (\<lambda>(j, x). if i \<le> j then x else 0) (enumerate 0 row)) (enumerate 0 m)"

text \<open>The accessors return their value and the object with its cache filled.\<close>

definition get_triangle :: "DSMatrix \<Rightarrow> real list list \<times> DSMatrix" where
  "get_triangle self =
     (case u_triangle self of
        None \<Rightarrow> (let t = np_triu (full_matrix self) in (t, self\<lparr>u_triangle := Some t\<rparr>))
      | Some t \<Rightarrow> (t, self))"

text \<open>
  Lines 198--215.  Indexing the matrix \<open>orig_tri\<close> with the boolean matrix
  \<open>abs(orig_tri) > 0\<close> gives the selected entries in row-major order as one row,
  which \<open>vector_form[0]\<close> reads.
\<close>

definition get_vector_form :: "DSMatrix \<Rightarrow> real list \<times> DSMatrix" where
  "get_vector_form self =
     (case vector_form self of
        Some v \<Rightarrow> (v, self)
      | None \<Rightarrow>
          let orig_dsmatrix = map (map (\<lambda>x. if x = 0 then - 1 else x)) (get_full_matrix self);
              orig_tri = np_triu orig_dsmatrix;
              selected = filter (\<lambda>x. \<bar>x\<bar> > 0) (concat orig_tri);
              v = map (\<lambda>x. if x = - 1 then 0 else x) selected
          in (v, self\<lparr>vector_form := Some v\<rparr>))"

section \<open>Properties\<close>

subsection \<open>Version strings\<close>

text \<open>
  C5.  The documented examples: \<open>version_to_tuple('1.2.3')\<close> is \<open>(1, 2, 3)\<close>;
  \<open>SmartVersion('1.0') < SmartVersion('1.0.1')\<close>; \<open>'1.0-dev'\<close> parses to
  \<open>(1, 0, '-dev')\<close>, \<open>'-dev'\<close> matches the pre-release pattern, and
  \<open>SmartVersion('1.0-dev') < SmartVersion('1.0')\<close>.
\<close>

theorem version_examples:
  "version_to_tuple (VString ''1.2.3'') = Some (Inr [TInt 1, TInt 2, TInt 3]) \<and>
   SmartVersion_lt (VString ''1.0'') (VString ''1.0.1'') = Some (Inr True) \<and>
   version_to_tuple (VString ''1.0-dev'') = Some (Inr [TInt 1, TInt 0, TStr ''-dev'']) \<and>
   regex_prerelease_match ''-dev'' \<and>
   SmartVersion_lt (VString ''1.0-dev'') (VString ''1.0'') = Some (Inr True)"
  by code_simp

text \<open>
  The loop of \<open>version_to_tuple\<close> makes no progress on a suffix that starts with a
  character of no class: the pattern matches three empty groups and hands the same
  suffix back.
\<close>

lemma regex_search_stuck:
  assumes "unclassifiable c"
  shows "regex_search (c # cs) = Some ([], [], c # takeWhile (\<lambda>x. \<not> is_newline x) cs)"
  using assms by (simp add: regex_search_def unclassifiable_def)

lemma split_tokens_stuck_aux:
  assumes "split_tokens s v = Some y"
  shows "\<not> (\<exists>c cs. s = c # cs \<and> unclassifiable c)"
  using assms
proof (rule split_tokens.raw_induct[rotated, where P = "\<lambda>s v y. \<not> (\<exists>c cs. s = c # cs \<and> unclassifiable c)"])
  fix f :: "string \<Rightarrow> token list \<Rightarrow> (error + token list) option"
    and suffix :: string and vres :: "token list" and r :: "error + token list"
  assume IH: "\<And>s v y. f s v = Some y \<Longrightarrow> \<not> (\<exists>c cs. s = c # cs \<and> unclassifiable c)"
  assume step: "(if suffix = [] then Some (Inr vres)
      else case regex_search suffix of None \<Rightarrow> Some (Inl TypeError)
           | Some res \<Rightarrow>
               f (snd (snd res))
                (vres @
                 (if fst res \<noteq> [] then [TInt (digits_to_int (fst res))]
                  else []) @
                 (if fst (snd res) \<noteq> [] then [TStr (fst (snd res))]
                  else []))) = Some r"
  show "\<not> (\<exists>c cs. suffix = c # cs \<and> unclassifiable c)"
  proof
    assume "\<exists>c cs. suffix = c # cs \<and> unclassifiable c"
    then obtain c cs where s: "suffix = c # cs" and u: "unclassifiable c" by blast
    from step s regex_search_stuck[OF u, of cs]
    have "f (c # takeWhile (\<lambda>x. \<not> is_newline x) cs) vres = Some r" by simp
    from IH[OF this] u show False by blast
  qed
qed

lemma split_tokens_stuck:
  "unclassifiable c \<Longrightarrow> split_tokens (c # cs) v = None"
  using split_tokens_stuck_aux[of "c # cs" v] by (cases "split_tokens (c # cs) v") auto

lemma classified_not_newline: "classified c \<Longrightarrow> \<not> is_newline c"
  by (auto simp: classified_def is_digit_def is_sign_def is_letter_def is_newline_def)

lemma split_runs:
  "s = takeWhile is_digit s @ takeWhile is_sign (dropWhile is_digit s)
         @ takeWhile is_letter (dropWhile is_sign (dropWhile is_digit s))
         @ dropWhile is_letter (dropWhile is_sign (dropWhile is_digit s))"
  by (metis takeWhile_dropWhile_id)

lemma has_unclassifiable_append:
  assumes "\<forall>c\<in>set pre. classified c" and "has_unclassifiable (pre @ r)"
  shows "has_unclassifiable r"
proof -
  from assms(1) have nl: "\<forall>c\<in>set pre. \<not> is_newline c"
    using classified_not_newline by blast
  then have "takeWhile (\<lambda>c. \<not> is_newline c) (pre @ r) = pre @ takeWhile (\<lambda>c. \<not> is_newline c) r"
    by simp
  with assms show ?thesis
    by (auto simp: has_unclassifiable_def list_ex_iff)
qed

lemma split_tokens_diverges:
  "has_unclassifiable s \<Longrightarrow> split_tokens s v = None"
proof (induction "length s" arbitrary: s v rule: less_induct)
  case less
  let ?num = "takeWhile is_digit s"
  let ?r1 = "dropWhile is_digit s"
  let ?signs = "takeWhile is_sign ?r1"
  let ?r2 = "dropWhile is_sign ?r1"
  let ?letters = "takeWhile is_letter ?r2"
  let ?r3 = "dropWhile is_letter ?r2"
  let ?suf = "takeWhile (\<lambda>c. \<not> is_newline c) ?r3"
  let ?pre = "?num @ ?signs @ ?letters"
  from less.prems have ne: "s \<noteq> []"
    by (auto simp: has_unclassifiable_def)
  have rs: "regex_search s = Some (?num, ?signs @ ?letters, ?suf)"
    by (simp add: regex_search_def Let_def)
  have s_eq: "s = ?pre @ ?r3" using split_runs[of s] by simp
  have pre_cl: "\<forall>c\<in>set ?pre. classified c"
    by (auto simp: classified_def dest: set_takeWhileD)
  show ?case
  proof (cases "?pre = []")
    case True
    then have "?r3 = s" using s_eq by simp
    from ne obtain c cs where s: "s = c # cs" by (cases s) auto
    from True s have nd: "\<not> is_digit c" by auto
    with s have r1: "?r1 = s" by simp
    from True r1 s have nsg: "\<not> is_sign c" by auto
    with s r1 have r2: "?r2 = s" by simp
    from True r2 s have nlt: "\<not> is_letter c" by auto
    from less.prems s have "\<not> is_newline c"
      by (auto simp: has_unclassifiable_def split: if_splits)
    with nd nsg nlt have "unclassifiable c" by (simp add: unclassifiable_def)
    then show ?thesis unfolding s by (rule split_tokens_stuck)
  next
    case False
    then have "length ?r3 < length s"
      using arg_cong[OF s_eq, of length] by (simp del: takeWhile_dropWhile_id)
    moreover have "length ?suf \<le> length ?r3" by (rule length_takeWhile_le)
    ultimately have shorter: "length ?suf < length s" by linarith
    from less.prems s_eq have "has_unclassifiable (?pre @ ?r3)" by simp
    with pre_cl have "has_unclassifiable ?r3" by (rule has_unclassifiable_append)
    then have bad: "has_unclassifiable ?suf"
      by (simp add: has_unclassifiable_def)
    have "split_tokens s v =
        split_tokens ?suf (v @ (if ?num \<noteq> [] then [TInt (digits_to_int ?num)] else [])
                             @ (if ?signs @ ?letters \<noteq> [] then [TStr (?signs @ ?letters)] else []))"
      by (subst split_tokens.simps) (simp add: ne rs)
    also have "\<dots> = None" by (rule less.hyps[OF shorter bad])
    finally show ?thesis .
  qed
qed

lemma split_tokens_no_error:
  assumes "split_tokens s v = Some y"
  shows "\<exists>t. y = Inr t"
  using assms
proof (rule split_tokens.raw_induct[rotated, where P = "\<lambda>s v y. \<exists>t. y = Inr t"])
  fix f :: "string \<Rightarrow> token list \<Rightarrow> (error + token list) option"
    and suffix :: string and vres :: "token list" and r :: "error + token list"
  assume IH: "\<And>s v y. f s v = Some y \<Longrightarrow> \<exists>t. y = Inr t"
  assume step: "(if suffix = [] then Some (Inr vres)
      else case regex_search suffix of None \<Rightarrow> Some (Inl TypeError)
           | Some res \<Rightarrow>
               f (snd (snd res))
                (vres @
                 (if fst res \<noteq> [] then [TInt (digits_to_int (fst res))]
                  else []) @
                 (if fst (snd res) \<noteq> [] then [TStr (fst (snd res))]
                  else []))) = Some r"
  show "\<exists>t. r = Inr t"
  proof (cases "suffix = []")
    case True
    with step show ?thesis by auto
  next
    case False
    obtain res where "regex_search suffix = Some res"
      by (simp add: regex_search_def Let_def)
    with step False IH show ?thesis by simp
  qed
qed

lemma convert_items_diverges:
  assumes "x \<in> set xs" and "py_int x = None" and "has_unclassifiable x"
  shows "convert_items (map IStr xs) v = None"
  using assms(1)
proof (induction xs arbitrary: v)
  case Nil
  then show ?case by simp
next
  case (Cons y ys)
  show ?case
  proof (cases "y = x")
    case True
    then show ?thesis
      by (simp add: assms(2) split_tokens_diverges[OF assms(3)])
  next
    case False
    with Cons.prems have mem: "x \<in> set ys" by simp
    show ?thesis
    proof (cases "py_int y")
      case (Some n)
      then show ?thesis by (simp add: Cons.IH[OF mem])
    next
      case None
      show ?thesis
      proof (cases "split_tokens y v")
        case None
        with \<open>py_int y = None\<close> show ?thesis by simp
      next
        case (Some r)
        from split_tokens_no_error[OF this] obtain t where "r = Inr t" by blast
        with Some \<open>py_int y = None\<close> show ?thesis by (simp add: Cons.IH[OF mem])
      qed
    qed
  qed
qed

text \<open>
  C2.  The claim says that a version string with a token of no class makes
  \<open>version_to_tuple\<close> and the construction of a \<open>SmartVersion\<close> raise an error.
  On the code they never return: whenever a segment between dots is rejected by
  \<open>int\<close> and holds, on its first line, a character that is not a digit, a sign or a
  letter, the result is \<open>None\<close>, so no exception is raised and no tuple is produced;
  the same holds for building a \<open>SmartVersion\<close> from the string and for comparing a
  \<open>SmartVersion\<close> with it.
\<close>

theorem version_to_tuple_never_returns:
  assumes "x \<in> set (split_on CHR ''.'' s)" and "py_int x = None" and "has_unclassifiable x"
  shows "version_to_tuple (VString s) = None \<and> SmartVersion_init (VString s) = None \<and>
         SmartVersion_cmp sv (ORaw (VString s)) = None"
proof -
  have v: "version_to_tuple (VString s) = None"
    by (simp add: version_to_tuple_def convert_items_diverges[OF assms])
  from assms(1) have "s \<noteq> []"
    using assms(2,3) by (auto simp: has_unclassifiable_def)
  then have "\<not> falsy (VString s)" by (simp add: falsy_def)
  with v have i: "SmartVersion_init (VString s) = None" by (simp add: SmartVersion_init_def)
  then have "SmartVersion_cmp sv (ORaw (VString s)) = None" by (simp add: SmartVersion_cmp_def)
  with v i show ?thesis by simp
qed

theorem version_to_tuple_never_returns_witness:
  "''1#2'' \<in> set (split_on CHR ''.'' ''1#2'') \<and> py_int ''1#2'' = None \<and>
   has_unclassifiable ''1#2'' \<and>
   version_to_tuple (VString ''1#2'') = None \<and> SmartVersion_init (VString ''1#2'') = None \<and>
   SmartVersion_cmp \<lparr>vstring = Some (VString ''1.0''), version = Some [TInt 1, TInt 0]\<rparr>
     (ORaw (VString ''1#2'')) = None"
proof -
  have a: "''1#2'' \<in> set (split_on CHR ''.'' ''1#2'')" by simp
  have b: "py_int ''1#2'' = None" by code_simp
  have c: "has_unclassifiable ''1#2''" by code_simp
  from version_to_tuple_never_returns[OF a b c,
      of "\<lparr>vstring = Some (VString ''1.0''), version = Some [TInt 1, TInt 0]\<rparr>"] a b c
  show ?thesis by simp
qed


subsection \<open>Masks and slices\<close>

lemma length_neighbour_diffs: "length (neighbour_diffs xs) = length xs - 1"
  by (simp add: neighbour_diffs_def)

lemma nth_neighbour_diffs:
  "i < length xs - 1 \<Longrightarrow> neighbour_diffs xs ! i = xs ! Suc i - xs ! i"
  by (simp add: neighbour_diffs_def nth_tl nth_butlast)

lemma np_unique_singleton:
  assumes "set xs = {a}"
  shows "np_unique xs = [a]"
proof -
  have "np_unique xs = sorted_list_of_set (set xs)"
    by (simp add: np_unique_def sorted_list_of_set_sort_remdups)
  with assms show ?thesis by simp
qed

lemma length_np_unique: "length (np_unique xs) = card (set xs)"
  by (simp add: np_unique_def length_remdups_card_conv)

lemma nonzero_progression:
  assumes d: "0 < d" and n: "1 \<le> n" and bound: "s + (n - 1) * d < length msk"
    and tr: "\<forall>i<length msk. msk ! i \<longleftrightarrow> (\<exists>k<n. i = s + k * d)"
  shows "nonzero msk = map (\<lambda>k. int (s + k * d)) [0..<n]"
proof -
  let ?xs = "filter (\<lambda>i. msk ! i) [0..<length msk]"
  let ?ys = "map (\<lambda>k. s + k * d) [0..<n]"
  have in_range: "s + k * d < length msk" if "k < n" for k
  proof -
    from that have "k \<le> n - 1" by simp
    then have "k * d \<le> (n - 1) * d" by (rule mult_le_mono1)
    with bound show ?thesis by linarith
  qed
  have st: "set ?xs = set ?ys"
  proof (intro set_eqI iffI)
    fix i assume "i \<in> set ?xs"
    then have "i < length msk" "msk ! i" by auto
    with tr obtain k where "k < n" "i = s + k * d" by blast
    then show "i \<in> set ?ys" by auto
  next
    fix i assume "i \<in> set ?ys"
    then obtain k where k: "k < n" "i = s + k * d" by auto
    with in_range[of k] tr show "i \<in> set ?xs" by auto
  qed
  have sx: "sorted ?xs" by (rule sorted_wrt_filter) simp
  have dx: "distinct ?xs" by simp
  have sy: "sorted ?ys"
    by (rule sorted_wrt_map_mono[OF sorted_wrt_upt]) simp
  have "inj_on (\<lambda>k. s + k * d) (set [0..<n])"
    using d by (simp add: inj_on_def)
  then have dy: "distinct ?ys" by (simp add: distinct_map)
  from sx dx sy dy st have "?xs = ?ys" by (rule sorted_distinct_set_unique)
  then show ?thesis by (simp add: nonzero_def)
qed

lemma set_constant_list:
  assumes "0 < length xs" and "\<forall>i<length xs. xs ! i = a"
  shows "set xs = {a}"
proof -
  from assms(1) have "xs ! 0 \<in> set xs" by simp
  moreover from assms have "xs ! 0 = a" by blast
  ultimately have "a \<in> set xs" by simp
  moreover have "x = a" if "x \<in> set xs" for x
  proof -
    from that obtain i where "i < length xs" "xs ! i = x"
      by (auto simp: in_set_conv_nth)
    with assms(2) show ?thesis by blast
  qed
  ultimately show ?thesis by blast
qed

lemma set_neighbour_diffs_progression:
  assumes "2 \<le> n"
  shows "set (neighbour_diffs (map (\<lambda>k. int (s + k * d)) [0..<n])) = {int d}"
proof -
  let ?xs = "map (\<lambda>k. int (s + k * d)) [0..<n]"
  have len: "length (neighbour_diffs ?xs) = n - 1"
    by (simp add: length_neighbour_diffs)
  have nth: "neighbour_diffs ?xs ! i = int d" if "i < n - 1" for i
  proof -
    from that have "Suc i < n" "i < n" by auto
    then have "[0..<n] ! Suc i = Suc i" "[0..<n] ! i = i" by simp_all
    with that show ?thesis
      by (simp add: nth_neighbour_diffs algebra_simps)
  qed
  have "0 < length (neighbour_diffs ?xs)"
    using assms unfolding len by simp
  moreover have "\<forall>i<length (neighbour_diffs ?xs). neighbour_diffs ?xs ! i = int d"
    unfolding len using nth by blast
  ultimately show ?thesis by (rule set_constant_list)
qed

lemma neighbour_diffs_middle:
  "v - u \<in> set (neighbour_diffs (xs @ u # v # ys))"
proof -
  let ?zs = "xs @ u # v # ys"
  have "length xs < length ?zs - 1" by simp
  then have "neighbour_diffs ?zs ! length xs = ?zs ! Suc (length xs) - ?zs ! length xs"
    by (rule nth_neighbour_diffs)
  also have "\<dots> = v - u" by (simp add: nth_append)
  finally have "neighbour_diffs ?zs ! length xs = v - u" .
  moreover have "length xs < length (neighbour_diffs ?zs)"
    by (simp add: length_neighbour_diffs)
  ultimately show ?thesis by (metis nth_mem)
qed

lemma adjacent_true_gap:
  assumes "adjacent_true msk a b"
  shows "int b - int a \<in> set (neighbour_diffs (nonzero msk))"
proof -
  from assms have ab: "a < b" and bl: "b < length msk" and ta: "msk ! a" and tb: "msk ! b"
    and gap: "\<forall>i. a < i \<and> i < b \<longrightarrow> \<not> msk ! i"
    by (auto simp: adjacent_true_def)
  have split: "[0..<length msk] = [0..<a] @ a # [Suc a..<b] @ b # [Suc b..<length msk]"
  proof -
    have 1: "[0..<length msk] = [0..<b] @ [b..<length msk]"
      using upt_add_eq_append[of 0 b "length msk - b"] bl by simp
    have 2: "[0..<b] = [0..<a] @ [a..<b]"
      using upt_add_eq_append[of 0 a "b - a"] ab by simp
    have 3: "[a..<b] = a # [Suc a..<b]" using ab by (rule upt_conv_Cons)
    have 4: "[b..<length msk] = b # [Suc b..<length msk]" using bl by (rule upt_conv_Cons)
    show ?thesis by (simp only: 1 2 3 4 append_Cons append_assoc)
  qed
  have empty: "filter (\<lambda>i. msk ! i) [Suc a..<b] = []"
    using gap by (auto simp: filter_empty_conv)
  have "filter (\<lambda>i. msk ! i) [0..<length msk] =
      filter (\<lambda>i. msk ! i) [0..<a] @ a # b # filter (\<lambda>i. msk ! i) [Suc b..<length msk]"
    by (subst split) (simp only: filter_append filter.simps ta tb empty if_True append_Nil)
  then have "nonzero msk =
      map int (filter (\<lambda>i. msk ! i) [0..<a]) @ int a # int b #
      map int (filter (\<lambda>i. msk ! i) [Suc b..<length msk])"
    unfolding nonzero_def by (simp only: map_append list.map)
  then show ?thesis by (simp only: neighbour_diffs_middle)
qed

lemma two_gaps_card:
  assumes "adjacent_true msk a b" and "adjacent_true msk c e" and "b - a \<noteq> e - c"
  shows "1 < card (set (neighbour_diffs (nonzero msk)))"
proof -
  let ?S = "set (neighbour_diffs (nonzero msk))"
  from assms have "a < b" "c < e" by (auto simp: adjacent_true_def)
  with assms(3) have ne: "int b - int a \<noteq> int e - int c" by linarith
  have "{int b - int a, int e - int c} \<subseteq> ?S"
    using adjacent_true_gap[OF assms(1)] adjacent_true_gap[OF assms(2)] by simp
  then have "card {int b - int a, int e - int c} \<le> card ?S"
    by (rule card_mono[rotated]) simp
  with ne show ?thesis by simp
qed

text \<open>
  C6.  A mask whose true positions are \<open>s, s + d, \<dots>, s + (n - 1) d\<close> with \<open>d > 0\<close> and
  at least two of them is turned into the slice from \<open>s\<close> to one past the last true
  position with step \<open>d\<close>; a mask with two pairs of neighbouring true positions at
  different distances is returned unchanged.
\<close>

theorem mask2slice_regular_and_irregular:
  "(0 < d \<and> 2 \<le> n \<and> s + (n - 1) * d < length msk \<and>
      (\<forall>i<length msk. msk ! i \<longleftrightarrow> (\<exists>k<n. i = s + k * d))
     \<longrightarrow> mask2slice msk = Inr (Slice (int s) (int (s + (n - 1) * d) + 1) (Some (int d)))) \<and>
   (adjacent_true msk a b \<and> adjacent_true msk c e \<and> b - a \<noteq> e - c
     \<longrightarrow> mask2slice msk = Inr (Mask msk))"
proof (intro conjI impI)
  assume h: "0 < d \<and> 2 \<le> n \<and> s + (n - 1) * d < length msk \<and>
      (\<forall>i<length msk. msk ! i \<longleftrightarrow> (\<exists>k<n. i = s + k * d))"
  then have n2: "2 \<le> n" and ne: "msk \<noteq> []" by auto
  from h have idx: "nonzero msk = map (\<lambda>k. int (s + k * d)) [0..<n]"
    by (intro nonzero_progression) auto
  have hd_idx: "hd (nonzero msk) = int s"
    using n2 by (simp add: idx hd_map)
  have last_idx: "last (nonzero msk) = int (s + (n - 1) * d)"
    using n2 by (simp add: idx last_map)
  have steps: "np_unique (neighbour_diffs (nonzero msk)) = [int d]"
    unfolding idx by (rule np_unique_singleton) (rule set_neighbour_diffs_progression[OF n2])
  have len: "length (nonzero msk) = n" by (simp add: idx)
  have nonempty: "nonzero msk \<noteq> []" using len n2 by auto
  show "mask2slice msk = Inr (Slice (int s) (int (s + (n - 1) * d) + 1) (Some (int d)))"
    using ne n2 nonempty
    by (simp add: mask2slice_def Let_def steps hd_idx last_idx len)
next
  assume "adjacent_true msk a b \<and> adjacent_true msk c e \<and> b - a \<noteq> e - c"
  then have c: "1 < card (set (neighbour_diffs (nonzero msk)))"
    by (intro two_gaps_card[of msk a b c e]) auto
  have "card (set (neighbour_diffs (nonzero msk))) \<le> length (neighbour_diffs (nonzero msk))"
    by (rule card_length)
  with c have l: "2 < length (nonzero msk)"
    by (simp add: length_neighbour_diffs)
  then have "nonzero msk \<noteq> []" by auto
  moreover from this have "msk \<noteq> []" by (auto simp: nonzero_def)
  ultimately show "mask2slice msk = Inr (Mask msk)"
    using c l by (simp add: mask2slice_def Let_def length_np_unique)
qed

text \<open>
  The two masks of the specification: true at \<open>{1, 3, 5}\<close> gives \<open>slice(1, 6, 2)\<close>, true
  at \<open>{0, 2, 3}\<close> gives the mask back.
\<close>

theorem mask2slice_regular_and_irregular_witness:
  "mask2slice [False, True, False, True, False, True] = Inr (Slice 1 6 (Some 2)) \<and>
   mask2slice [True, False, True, True] = Inr (Mask [True, False, True, True])"
proof -
  have a: "(0::nat) < 2 \<and> (2::nat) \<le> 3 \<and> 1 + (3 - 1) * 2 < length [False, True, False, True, False, True] \<and>
      (\<forall>i<length [False, True, False, True, False, True].
          [False, True, False, True, False, True] ! i \<longleftrightarrow> (\<exists>k<3. i = 1 + k * 2))"
    by (simp add: All_less_Suc Ex_less_Suc eval_nat_numeral nth_Cons')
  have b1: "adjacent_true [True, False, True, True] 0 2"
    by (auto simp: adjacent_true_def nth_Cons' less_Suc_eq eval_nat_numeral)
  have b2: "adjacent_true [True, False, True, True] 2 3"
    by (auto simp: adjacent_true_def nth_Cons' less_Suc_eq eval_nat_numeral)
  have b: "adjacent_true [True, False, True, True] 0 2 \<and> adjacent_true [True, False, True, True] 2 3
      \<and> (2::nat) - 0 \<noteq> 3 - 2"
    using b1 b2 by simp
  from mask2slice_regular_and_irregular[of 2 3 1 "[False, True, False, True, False, True]", THEN conjunct1, rule_format, OF a]
    mask2slice_regular_and_irregular[of _ _ _ "[True, False, True, True]" 0 2 2 3, THEN conjunct2, rule_format, OF b]
  show ?thesis by simp
qed

text \<open>
  C10.  A non-empty mask without a true element fails with \<open>IndexError\<close> (at
  \<open>idx[0]\<close>); the \<open>ValueError\<close> for an empty mask is raised for the mask of length
  zero and for no other.
\<close>

theorem mask2slice_no_true:
  "(msk \<noteq> [] \<and> (\<forall>i<length msk. \<not> msk ! i) \<longrightarrow> mask2slice msk = Inl IndexError) \<and>
   (mask2slice msk = Inl (ValueError ''Got an empty mask.'') \<longleftrightarrow> msk = [])"
proof (intro conjI impI iffI)
  assume h: "msk \<noteq> [] \<and> (\<forall>i<length msk. \<not> msk ! i)"
  then have "nonzero msk = []"
    by (auto simp: nonzero_def filter_empty_conv)
  with h show "mask2slice msk = Inl IndexError"
    by (simp add: mask2slice_def)
next
  assume "mask2slice msk = Inl (ValueError ''Got an empty mask.'')"
  then show "msk = []"
    by (simp add: mask2slice_def Let_def split: if_splits)
next
  assume "msk = []"
  then show "mask2slice msk = Inl (ValueError ''Got an empty mask.'')"
    by (simp add: mask2slice_def)
qed

theorem mask2slice_no_true_witness:
  "[False, False] \<noteq> [] \<and> mask2slice [False, False] = Inl IndexError \<and>
   mask2slice [] = Inl (ValueError ''Got an empty mask.'')"
  using mask2slice_no_true[of "[False, False]"] mask2slice_no_true[of "[]"]
  by (simp add: nth_Cons')

text \<open>
  A mask with exactly one true element, at position \<open>s\<close>, gives the slice from \<open>s\<close> to
  \<open>s + 1\<close> without a step.
\<close>

theorem mask2slice_single_true:
  assumes "s < length msk" and "\<forall>i<length msk. msk ! i \<longleftrightarrow> i = s"
  shows "mask2slice msk = Inr (Slice (int s) (int s + 1) None)"
proof -
  have "\<forall>i<length msk. msk ! i \<longleftrightarrow> (\<exists>k<1. i = s + k * 1)"
    using assms(2) by simp
  with assms(1) have "nonzero msk = map (\<lambda>k. int (s + k * 1)) [0..<1]"
    by (intro nonzero_progression) simp_all
  then have "nonzero msk = [int s]" by simp
  moreover from assms(1) have "msk \<noteq> []" by auto
  ultimately show ?thesis by (simp add: mask2slice_def)
qed

theorem mask2slice_single_true_witness:
  "mask2slice [False, True] = Inr (Slice 1 2 None)"
proof -
  have a: "1 < length [False, True]" by simp
  have b: "\<forall>i<length [False, True]. [False, True] ! i \<longleftrightarrow> i = 1"
    by (simp add: All_less_Suc eval_nat_numeral nth_Cons')
  from mask2slice_single_true[OF a b] show ?thesis by simp
qed

subsection \<open>Boxcar windows\<close>

lemma collect_all_Inr:
  "(\<And>x. x \<in> set xs \<Longrightarrow> f x = Inr (g x)) \<Longrightarrow> collect (map f xs) = Inr (map g xs)"
  by (induction xs) simp_all

lemma window_rows:
  assumes "0 \<le> a" and "0 \<le> n" and "a + n \<le> int (length data)"
  shows "map (\<lambda>k. data ! nat k) [a..a + n - 1] = take (nat n) (drop (nat a) data)"
proof (rule nth_equalityI)
  show "length (map (\<lambda>k. data ! nat k) [a..a + n - 1]) = length (take (nat n) (drop (nat a) data))"
    using assms by simp
next
  fix i assume "i < length (map (\<lambda>k. data ! nat k) [a..a + n - 1])"
  then have i: "int i < n" using assms by simp
  then have "[a..a + n - 1] ! i = a + int i" by simp
  moreover have "nat (a + int i) = nat a + i" using assms by (simp add: nat_add_distrib)
  ultimately show "map (\<lambda>k. data ! nat k) [a..a + n - 1] ! i = take (nat n) (drop (nat a) data) ! i"
    using i assms by simp
qed

lemma take_rows_window:
  assumes "0 \<le> a" and "0 \<le> n" and "a + n \<le> int (length data)"
  shows "take_rows data [a..a + n - 1] = Inr (take (nat n) (drop (nat a) data))"
proof -
  have "list_all (\<lambda>k. - int (length data) \<le> k \<and> k < int (length data)) [a..a + n - 1]"
    using assms by (auto simp: list_all_iff)
  moreover have "map (\<lambda>k. data ! nat (if k < 0 then k + int (length data) else k)) [a..a + n - 1]
      = map (\<lambda>k. data ! nat k) [a..a + n - 1]"
    using assms by (intro map_cong) auto
  ultimately show ?thesis
    by (simp add: take_rows_def Let_def window_rows[OF assms])
qed

text \<open>
  C7.  With a window length of at least 1 and every window
  \<open>[sp + offset, sp + offset + boxlength)\<close> inside the array, the result has one entry
  per start point: the reduction applied to the rows of that window.  With some
  window outside the array the call fails with the \<open>ValueError\<close> for an illegal box.
  On \<open>[0, 1, 2, 3, 4, 5]\<close> with start points \<open>[0, 2]\<close>, length 2, offset 0 and the mean
  the result is \<open>[0.5, 2.5]\<close>.
\<close>

theorem transform_with_boxcar_windows:
  "(1 \<le> boxlength \<and>
      (\<forall>sp\<in>set startpoints. 0 \<le> sp + offset \<and> sp + offset + boxlength \<le> int (length data))
    \<longrightarrow> transform_with_boxcar data startpoints boxlength offset fx =
          Inr (map (\<lambda>sp. fx (take (nat boxlength) (drop (nat (sp + offset)) data))) startpoints)) \<and>
   (1 \<le> boxlength \<and>
      (\<exists>sp\<in>set startpoints. sp + offset < 0 \<or> int (length data) < sp + offset + boxlength)
    \<longrightarrow> transform_with_boxcar data startpoints boxlength offset fx = Inl (ValueError ''Illegal box'')) \<and>
   transform_with_boxcar [0, 1, 2, 3, 4, 5] [0, 2] 2 0 np_mean = Inr [1 / 2, 5 / 2]"
proof (intro conjI impI)
  assume h: "1 \<le> boxlength \<and>
      (\<forall>sp\<in>set startpoints. 0 \<le> sp + offset \<and> sp + offset + boxlength \<le> int (length data))"
  then have legal: "\<not> list_ex (\<lambda>sp. sp + offset + boxlength - 1 > int (length data) - 1
                             \<or> sp + offset < 0) startpoints"
    by (auto simp: list_ex_iff)
  have "collect (map (\<lambda>box. map_sum id fx (take_rows data box))
                  (map (\<lambda>i. [i + offset .. i + offset + boxlength - 1]) startpoints))
        = Inr (map (\<lambda>sp. fx (take (nat boxlength) (drop (nat (sp + offset)) data))) startpoints)"
    unfolding map_map
  proof (rule collect_all_Inr)
    fix sp assume "sp \<in> set startpoints"
    with h have "0 \<le> sp + offset" "0 \<le> boxlength" "sp + offset + boxlength \<le> int (length data)"
      by auto
    from take_rows_window[OF this]
    show "((\<lambda>box. map_sum id fx (take_rows data box)) \<circ> (\<lambda>i. [i + offset..i + offset + boxlength - 1])) sp
        = Inr (fx (take (nat boxlength) (drop (nat (sp + offset)) data)))"
      by simp
  qed
  with h legal show "transform_with_boxcar data startpoints boxlength offset fx =
          Inr (map (\<lambda>sp. fx (take (nat boxlength) (drop (nat (sp + offset)) data))) startpoints)"
    by (simp add: transform_with_boxcar_def Let_def)
next
  assume h: "1 \<le> boxlength \<and>
      (\<exists>sp\<in>set startpoints. sp + offset < 0 \<or> int (length data) < sp + offset + boxlength)"
  then obtain sp where "sp \<in> set startpoints"
      and "sp + offset < 0 \<or> int (length data) < sp + offset + boxlength" by blast
  then have "sp + offset + boxlength - 1 > int (length data) - 1 \<or> sp + offset < 0" by linarith
  with \<open>sp \<in> set startpoints\<close>
  have "list_ex (\<lambda>sp. sp + offset + boxlength - 1 > int (length data) - 1
                             \<or> sp + offset < 0) startpoints"
    unfolding list_ex_iff by blast
  with h show "transform_with_boxcar data startpoints boxlength offset fx = Inl (ValueError ''Illegal box'')"
    by (simp add: transform_with_boxcar_def)
next
  show "transform_with_boxcar [0, 1, 2, 3, 4, 5] [0, 2] 2 0 np_mean = Inr [1 / 2, 5 / 2]"
    by (simp add: transform_with_boxcar_def take_rows_def np_mean_def upto_rec1 Let_def)
qed

theorem transform_with_boxcar_windows_witness:
  "transform_with_boxcar [0, 1, 2, 3, 4, 5 :: real] [0, 2] 2 0 np_mean = Inr [1 / 2, 5 / 2] \<and>
   transform_with_boxcar [0, 1, 2, 3, 4, 5 :: real] [0, 5] 2 0 np_mean = Inl (ValueError ''Illegal box'')"
proof -
  have a: "(1::int) \<le> 2 \<and>
      (\<forall>sp\<in>set [0, 2 :: int]. 0 \<le> sp + 0 \<and> sp + 0 + 2 \<le> int (length [0, 1, 2, 3, 4, 5 :: real]))"
    by simp
  have b: "(1::int) \<le> 2 \<and>
      (\<exists>sp\<in>set [0, 5 :: int]. sp + 0 < 0 \<or> int (length [0, 1, 2, 3, 4, 5 :: real]) < sp + 0 + 2)"
    by simp
  from transform_with_boxcar_windows[of 2 "[0, 2]" 0 "[0, 1, 2, 3, 4, 5 :: real]" np_mean, THEN conjunct1, rule_format, OF a]
    transform_with_boxcar_windows[of 2 "[0, 5]" 0 "[0, 1, 2, 3, 4, 5 :: real]" np_mean, THEN conjunct2, THEN conjunct1, rule_format, OF b]
  show ?thesis by (simp add: np_mean_def)
qed

subsection \<open>Events on a time grid\<close>

lemma bind_err_simps:
  "bind_err (Inl e) f = Inl e" "bind_err (Inr x) f = f x"
  by (simp_all add: bind_err_def)

lemma bind_err_Inr:
  "bind_err r f = Inr y \<longleftrightarrow> (\<exists>x. r = Inr x \<and> f x = Inr y)"
  by (cases r) (simp_all add: bind_err_def)

lemma length_setitem: "length (setitem h r k v) = length h"
  by (simp add: setitem_def)

lemma take_setitem: "n \<le> r \<Longrightarrow> take n (setitem h r k v) = take n h"
  by (simp add: setitem_def)


lemma store_offset_frame:
  assumes "store_offset A h out onset dt oa = Inr h'" and "n \<le> out"
  shows "take n h' = take n h \<and> length h' = length h"
  using assms
  by (auto simp: store_offset_def bind_err_Inr take_setitem length_setitem)

lemma store_duration_frame:
  assumes "store_duration A h out onset dt = Inr h'" and "n \<le> out"
  shows "take n h' = take n h \<and> length h' = length h"
  using assms
  by (auto simp: store_duration_def bind_err_Inr take_setitem length_setitem split: if_splits)

lemma as_descrete_time_frame:
  assumes "as_descrete_time A h self dt so oa = (res, h')"
  shows "take (length h) h' = h \<and> length h \<le> length h' \<and> (\<forall>r. res = Inr r \<longrightarrow> r = length h \<and> r < length h')"
proof (cases "getitem h self ''onset''")
  case (Inl e)
  with assms show ?thesis by (auto simp: as_descrete_time_def)
next
  case (Inr onset)
  let ?out = "length h"
  let ?h1 = "h @ [h ! self]"
  show ?thesis
  proof (cases "new_onset A onset dt")
    case (Inl e)
    with Inr assms show ?thesis by (auto simp: as_descrete_time_def copy_obj_def)
  next
    case n: (Inr n)
    let ?h2 = "setitem ?h1 ?out ''onset'' (PInt n)"
    have h2: "take (length h) ?h2 = h" "length ?h2 = Suc (length h)"
      by (simp_all add: take_setitem length_setitem)
    show ?thesis
    proof (cases "if so then store_offset A ?h2 ?out onset dt oa else Inr ?h2")
      case (Inl e)
      with Inr n assms h2 show ?thesis
        by (auto simp: as_descrete_time_def copy_obj_def Let_def)
    next
      case h3: (Inr h3)
      then have f3: "take (length h) h3 = h \<and> length h3 = Suc (length h)"
        using store_offset_frame[of A ?h2 ?out onset dt oa h3 "length h"] h2
        by (auto split: if_splits)
      show ?thesis
      proof (cases "store_duration A h3 ?out onset dt")
        case (Inl e)
        with Inr n assms h3 f3 show ?thesis
          by (auto simp: as_descrete_time_def copy_obj_def Let_def)
      next
        case h4: (Inr h4)
        then have "take (length h) h4 = h \<and> length h4 = Suc (length h)"
          using store_duration_frame[of A h3 ?out onset dt h4 "length h"] f3 by auto
        with Inr n assms h3 h4 show ?thesis
          by (auto simp: as_descrete_time_def copy_obj_def Let_def)
      qed
    qed
  qed
qed

text \<open>
  C9.  The call leaves the event it is called on as it was: after the call the
  store holds the same dictionary at \<open>self\<close>, indeed every object that existed
  before is unchanged, also when the call raises; and a returned event is a new
  object, at a reference that was not in the store before.  This holds whatever the
  float arithmetic computes.
\<close>

theorem as_descrete_time_leaves_original:
  assumes "self < length h" and "as_descrete_time A h self dt storeoffset offsetattr = (res, h')"
  shows "h' ! self = h ! self \<and> take (length h) h' = h \<and>
         (\<forall>r. res = Inr r \<longrightarrow> r \<noteq> self \<and> r = length h \<and> r < length h')"
proof -
  from as_descrete_time_frame[OF assms(2)]
  have t: "take (length h) h' = h" and r: "\<forall>r. res = Inr r \<longrightarrow> r = length h \<and> r < length h'"
    by auto
  have "h' ! self = take (length h) h' ! self" using assms(1) by simp
  with t have "h' ! self = h ! self" by simp
  with t r assms(1) show ?thesis by auto
qed

lemma exact_arith_simps:
  "flt_of_int exact_arith i = Inr (real_of_int i)"
  "flt_to_int exact_arith x = Inr (if 0 \<le> x then \<lfloor>x\<rfloor> else \<lceil>x\<rceil>)"
  "flt_is_zero exact_arith x = (x = 0)"
  "flt_add exact_arith x y = x + y"
  "flt_sub exact_arith x y = x - y"
  "flt_mul exact_arith x y = x * y"
  "flt_div exact_arith x y = x / y"
  "flt_floor exact_arith x = real_of_int \<lfloor>x\<rfloor>"
  "flt_ceil exact_arith x = real_of_int \<lceil>x\<rceil>"
  by (simp_all add: exact_arith_def)

lemma example_call:
  "fst (as_descrete_time exact_arith [[''onset'' \<mapsto> PInt 5, ''duration'' \<mapsto> PInt 10]] 0 2 True ''offset'')
     = Inr 1"
  by (simp add: as_descrete_time_def getitem_def copy_obj_def setitem_def new_onset_def
      div_float_def to_float_def store_offset_def store_duration_def py_mul_def py_sub_def
      py_add_def py_int_of_def bind_err_simps exact_arith_simps Let_def)

theorem as_descrete_time_leaves_original_witness:
  "snd (as_descrete_time exact_arith [[''onset'' \<mapsto> PInt 5, ''duration'' \<mapsto> PInt 10]] 0 2 True ''offset'') ! 0
      = [''onset'' \<mapsto> PInt 5, ''duration'' \<mapsto> PInt 10] \<and>
   fst (as_descrete_time exact_arith [[''onset'' \<mapsto> PInt 5, ''duration'' \<mapsto> PInt 10]] 0 2 True ''offset'')
      = Inr 1"
proof -
  let ?h = "[[''onset'' \<mapsto> PInt 5, ''duration'' \<mapsto> PInt 10]] :: real store"
  have a: "0 < length ?h" by simp
  have b: "as_descrete_time exact_arith ?h 0 2 True ''offset'' =
     (fst (as_descrete_time exact_arith ?h 0 2 True ''offset''),
      snd (as_descrete_time exact_arith ?h 0 2 True ''offset''))"
    by simp
  from as_descrete_time_leaves_original[OF a b] example_call show ?thesis by simp
qed




subsection \<open>Chi-square\<close>

lemma sum_list_zip_nth:
  fixes h :: "'a \<times> 'b \<Rightarrow> 'c::comm_monoid_add"
  assumes "length a = length b"
  shows "sum_list (map h (zip a b)) = (\<Sum>j<length a. h (a ! j, b ! j))"
proof -
  have "sum_list (map h (zip a b)) = (\<Sum>j = 0..<length (map h (zip a b)). map h (zip a b) ! j)"
    by (rule sum_list_sum_nth)
  also have "\<dots> = (\<Sum>j = 0..<length a. h (a ! j, b ! j))"
    using assms by (intro sum.cong) auto
  finally show ?thesis by (simp add: atLeast0LessThan)
qed

lemma sum_list_cells:
  fixes h :: "'a \<times> 'b \<Rightarrow> 'c::comm_monoid_add"
  assumes "map length A = map length B"
  shows "sum_list (map h (zip (concat A) (concat B)))
       = (\<Sum>i<length A. \<Sum>j<length (A ! i). h (A ! i ! j, B ! i ! j))"
  using assms
proof (induction A arbitrary: B)
  case Nil
  then show ?case by simp
next
  case (Cons a A)
  then obtain b B' where B: "B = b # B'" by (cases B) auto
  with Cons.prems have len: "length a = length b" and rest: "map length A = map length B'"
    by auto
  have "sum_list (map h (zip (concat (a # A)) (concat B)))
      = sum_list (map h (zip a b)) + sum_list (map h (zip (concat A) (concat B')))"
    using len by (simp add: B)
  also have "\<dots> = (\<Sum>j<length a. h (a ! j, b ! j))
        + (\<Sum>i<length A. \<Sum>j<length (A ! i). h (A ! i ! j, B' ! i ! j))"
    by (simp add: sum_list_zip_nth[OF len] Cons.IH[OF rest])
  also have "\<dots> = (\<Sum>i<length (a # A). \<Sum>j<length ((a # A) ! i). h ((a # A) ! i ! j, B ! i ! j))"
    by (simp add: B sum.lessThan_Suc_shift del: sum.lessThan_Suc)
  finally show ?case .
qed

lemma set_cells:
  assumes "map length A = map length B"
  shows "set (zip (concat A) (concat B)) = {(A ! i ! j, B ! i ! j) | i j. i < length A \<and> j < length (A ! i)}"
  using assms
proof (induction A arbitrary: B)
  case Nil
  then show ?case by simp
next
  case (Cons a A)
  then obtain b B' where B: "B = b # B'" by (cases B) auto
  with Cons.prems have len: "length a = length b" and rest: "map length A = map length B'"
    by auto
  have row: "set (zip a b) = {(a ! j, b ! j) | j. j < length a}"
    using len by (auto simp: set_zip)
  have "set (zip (concat (a # A)) (concat B)) = set (zip a b) \<union> set (zip (concat A) (concat B'))"
    using len by (simp add: B)
  also have "\<dots> = {(a ! j, b ! j) | j. j < length a}
        \<union> {(A ! i ! j, B' ! i ! j) | i j. i < length A \<and> j < length (A ! i)}"
    by (simp only: row Cons.IH[OF rest])
  also have "\<dots> = {((a # A) ! i ! j, B ! i ! j) | i j. i < length (a # A) \<and> j < length ((a # A) ! i)}"
  proof (intro set_eqI iffI)
    fix x
    assume "x \<in> {(a ! j, b ! j) | j. j < length a}
        \<union> {(A ! i ! j, B' ! i ! j) | i j. i < length A \<and> j < length (A ! i)}"
    then consider j where "x = (a ! j, b ! j)" "j < length a"
      | i j where "x = (A ! i ! j, B' ! i ! j)" "i < length A" "j < length (A ! i)"
      by blast
    then show "x \<in> {((a # A) ! i ! j, B ! i ! j) | i j. i < length (a # A) \<and> j < length ((a # A) ! i)}"
    proof cases
      case 1
      then have "x = ((a # A) ! 0 ! j, B ! 0 ! j) \<and> 0 < length (a # A) \<and> j < length ((a # A) ! 0)"
        by (simp add: B)
      then show ?thesis by blast
    next
      case 2
      then have "x = ((a # A) ! Suc i ! j, B ! Suc i ! j) \<and> Suc i < length (a # A) \<and> j < length ((a # A) ! Suc i)"
        by (simp add: B)
      then show ?thesis by blast
    qed
  next
    fix x
    assume "x \<in> {((a # A) ! i ! j, B ! i ! j) | i j. i < length (a # A) \<and> j < length ((a # A) ! i)}"
    then obtain i j where x: "x = ((a # A) ! i ! j, B ! i ! j)" and i: "i < length (a # A)"
      and j: "j < length ((a # A) ! i)" by blast
    show "x \<in> {(a ! j, b ! j) | j. j < length a}
        \<union> {(A ! i ! j, B' ! i ! j) | i j. i < length A \<and> j < length (A ! i)}"
    proof (cases i)
      case 0
      with x j show ?thesis by (auto simp: B)
    next
      case (Suc i')
      with x i j have "x = (A ! i' ! j, B' ! i' ! j) \<and> i' < length A \<and> j < length (A ! i')"
        by (simp add: B)
      then show ?thesis by blast
    qed
  qed
  finally show ?case .
qed

lemma length_filter_sum:
  "length (filter P xs) = sum_list (map (\<lambda>x. if P x then 1 else 0) xs)"
  by (induction xs) simp_all

lemma card_cells:
  fixes n :: nat and m :: "nat \<Rightarrow> nat"
  shows "card {(i, j). i < n \<and> j < m i \<and> Q i j} = (\<Sum>i<n. \<Sum>j<m i. if Q i j then 1 else 0)"
proof -
  have "{(i, j). i < n \<and> j < m i \<and> Q i j} = (SIGMA i:{..<n}. {j \<in> {..<m i}. Q i j})"
    by auto
  moreover have "card (SIGMA i:{..<n}. {j \<in> {..<m i}. Q i j}) = (\<Sum>i<n. card {j \<in> {..<m i}. Q i j})"
    by (rule card_SigmaI) simp_all
  moreover have "card {j \<in> {..<m i}. Q i j} = (\<Sum>j<m i. if Q i j then 1 else 0)" for i
    by (simp add: sum.If_cases Int_def)
  ultimately show ?thesis by simp
qed


lemma is_matrix_row: "is_matrix m \<Longrightarrow> i < length m \<Longrightarrow> length (m ! i) = snd (shape m)"
  by (simp add: is_matrix_def list_all_length)

lemma expected_shape:
  assumes "is_matrix obs" and "valid_exp obs expv"
  shows "\<exists>E. expected obs expv = Inr E \<and> map length E = map length obs"
proof (cases expv)
  case (ExpName name)
  have rows: "map (\<lambda>row. length (map f [0..<snd (shape obs)])) obs = map length obs" for f :: "nat \<Rightarrow> real"
    using assms(1) by (intro map_cong) (auto simp: is_matrix_def list_all_iff)
  from ExpName assms(2) have "name = ''uniform'' \<or> name = ''indep_rows'' \<or> name = ''indep_cols''"
    by (simp add: valid_exp_def)
  then show ?thesis
    using rows by (auto simp: expected_def Let_def ExpName comp_def)
next
  case (ExpArray e)
  with assms(2) have me: "is_matrix e" and sh: "shape e = shape obs"
    by (simp_all add: valid_exp_def)
  from sh have len: "length e = length obs" by (simp add: shape_def)
  have "map length e = map length obs"
  proof (rule nth_equalityI)
    show "length (map length e) = length (map length obs)" using len by simp
  next
    fix i assume "i < length (map length e)"
    then have i: "i < length e" "i < length obs" using len by simp_all
    from is_matrix_row[OF me i(1)] is_matrix_row[OF assms(1) i(2)] sh i
    show "map length e ! i = map length obs ! i" by simp
  qed
  with sh ExpArray show ?thesis by (simp add: expected_def Let_def)
qed

lemma cells_undefined:
  assumes "map length obs = map length E"
  shows "(\<exists>c\<in>set (zip (concat obs) (concat E)). snd c = 0 \<and> fst c \<noteq> 0) \<longleftrightarrow> undefined_cell obs E"
  unfolding set_cells[OF assms] undefined_cell_def by auto

lemma chisquare_cases:
  assumes ex: "expected obs expv = Inr E" and sh: "map length E = map length obs"
  shows "chisquare cp obs expv =
     (if undefined_cell obs E then Inl (ValueError ''chisquare: Expected values have 0-values'')
      else Inr (pearson_statistic obs E,
                cp (pearson_statistic obs E) (int (nonzero_expected_cells obs E) - 1)))"
proof -
  let ?cells = "zip (concat obs) (concat E)"
  let ?zeros = "filter (\<lambda>(ob, e). e = 0) ?cells"
  let ?nonzeros = "filter (\<lambda>(ob, e). e \<noteq> 0) ?cells"
  have sh': "map length obs = map length E" using sh by simp
  have test: "(length ?zeros \<noteq> 0 \<and> list_ex (\<lambda>(ob, e). ob \<noteq> 0) ?zeros) \<longleftrightarrow> undefined_cell obs E"
  proof -
    have "(length ?zeros \<noteq> 0 \<and> list_ex (\<lambda>(ob, e). ob \<noteq> 0) ?zeros)
        \<longleftrightarrow> (\<exists>c\<in>set ?cells. snd c = 0 \<and> fst c \<noteq> 0)"
      by (force simp: list_ex_iff filter_empty_conv)
    then show ?thesis by (simp only: cells_undefined[OF sh'])
  qed
  have "sum_list (map (\<lambda>(ob, e). (ob - e)\<^sup>2 / e) ?nonzeros)
      = sum_list (map (\<lambda>c. if snd c \<noteq> 0 then (fst c - snd c)\<^sup>2 / snd c else 0) ?cells)"
    by (simp add: sum_list_map_filter' case_prod_beta cong: if_cong)
  also have "\<dots> = pearson_statistic obs E"
    unfolding pearson_statistic_def by (simp add: sum_list_cells[OF sh'] cong: if_cong)
  finally have stat: "sum_list (map (\<lambda>(ob, e). (ob - e)\<^sup>2 / e) ?nonzeros) = pearson_statistic obs E" .
  have "length ?nonzeros = sum_list (map (\<lambda>c. if snd c \<noteq> 0 then 1 else 0) ?cells)"
    by (simp add: length_filter_sum case_prod_beta cong: if_cong)
  also have "\<dots> = (\<Sum>i<length obs. \<Sum>j<length (obs ! i). if E ! i ! j \<noteq> 0 then 1 else 0)"
    by (simp add: sum_list_cells[OF sh'] cong: if_cong)
  also have "\<dots> = nonzero_expected_cells obs E"
    unfolding nonzero_expected_cells_def by (rule card_cells[symmetric])
  finally have cnt: "length ?nonzeros = nonzero_expected_cells obs E" .
  show ?thesis
    using test by (simp add: chisquare_def ex Let_def stat cnt)
qed


text \<open>
  C3.  For a rectangular observation matrix and a valid specification of the expected
  values (one of the three names, or a matrix of the same shape), \<open>chisquare\<close> raises
  an error exactly when some cell has expected value zero and a non-zero observed
  value; the error is the \<open>ValueError\<close> of line 75, and without such a cell the call
  returns a result.
\<close>

theorem chisquare_raises_iff:
  assumes "is_matrix obs" and "valid_exp obs expv"
  shows "\<exists>E. expected obs expv = Inr E \<and>
     ((\<exists>err. chisquare cp obs expv = Inl err) \<longleftrightarrow> undefined_cell obs E) \<and>
     (undefined_cell obs E \<longrightarrow>
        chisquare cp obs expv = Inl (ValueError ''chisquare: Expected values have 0-values'')) \<and>
     (\<not> undefined_cell obs E \<longrightarrow> (\<exists>r. chisquare cp obs expv = Inr r))"
proof -
  from expected_shape[OF assms] obtain E
    where ex: "expected obs expv = Inr E" and sh: "map length E = map length obs" by blast
  from chisquare_cases[OF ex sh, of cp] ex show ?thesis by auto
qed

theorem chisquare_raises_iff_witness:
  "is_matrix [[1, 1], [3, 0]] \<and> valid_exp [[1, 1], [3, 0]] (ExpArray [[1, 0], [3, 0]]) \<and>
   undefined_cell [[1, 1], [3, 0]] [[1, 0], [3, 0]] \<and>
   chisquare (\<lambda>x k. 0) [[1, 1], [3, 0]] (ExpArray [[1, 0], [3, 0]])
     = Inl (ValueError ''chisquare: Expected values have 0-values'')"
proof -
  have a: "is_matrix [[1, 1], [3, 0]]" by (simp add: is_matrix_def shape_def)
  have b: "valid_exp [[1, 1], [3, 0]] (ExpArray [[1, 0], [3, 0]])"
    by (simp add: valid_exp_def is_matrix_def shape_def)
  have c: "expected [[1, 1], [3, 0]] (ExpArray [[1, 0], [3, 0]]) = Inr [[1, 0], [3, 0]]"
    by (simp add: expected_def shape_def)
  have "(0::nat) < length [[1, 1], [3, 0::real]] \<and> (1::nat) < length ([[1, 1], [3, 0::real]] ! 0) \<and>
      [[1, 0], [3, 0::real]] ! 0 ! 1 = 0 \<and> [[1, 1], [3, 0::real]] ! 0 ! 1 \<noteq> 0" by simp
  then have d: "undefined_cell [[1, 1], [3, 0]] [[1, 0], [3, 0]]"
    unfolding undefined_cell_def by blast
  from chisquare_raises_iff[OF a b, of "\<lambda>x k. 0"] c d a b show ?thesis by auto
qed

lemma sum_list_const:
  fixes c :: real
  shows "(\<forall>x\<in>set xs. x = c) \<Longrightarrow> sum_list xs = real (length xs) * c"
  by (induction xs) (simp_all add: algebra_simps)

lemma length_concat_matrix:
  assumes "is_matrix m"
  shows "length (concat m) = length m * snd (shape m)"
proof -
  have "map length m = replicate (length m) (snd (shape m))"
    using assms by (auto simp: is_matrix_def list_all_length intro!: nth_equalityI)
  then show ?thesis by (simp add: length_concat sum_list_replicate)
qed

lemma uniform_expected_entry:
  assumes m: "is_matrix obs" and all: "\<forall>i<length obs. \<forall>j<length (obs ! i). obs ! i ! j = c"
    and i: "i < length obs" and j: "j < length (obs ! i)"
  shows "expected obs (ExpName ''uniform'') =
           Inr (map (\<lambda>row. map (\<lambda>j. sum_list (concat obs) * 1 / real (length obs * snd (shape obs)))
                              [0..<snd (shape obs)]) obs)"
    and "sum_list (concat obs) * 1 / real (length obs * snd (shape obs)) = c"
proof -
  show "expected obs (ExpName ''uniform'') =
           Inr (map (\<lambda>row. map (\<lambda>j. sum_list (concat obs) * 1 / real (length obs * snd (shape obs)))
                              [0..<snd (shape obs)]) obs)"
    by (simp add: expected_def Let_def shape_def)
  have "\<forall>x\<in>set (concat obs). x = c"
  proof
    fix x assume "x \<in> set (concat obs)"
    then obtain row where "row \<in> set obs" "x \<in> set row" by auto
    then obtain i' j' where "i' < length obs" "row = obs ! i'" "j' < length row" "x = row ! j'"
      by (metis in_set_conv_nth)
    with all show "x = c" by simp
  qed
  then have s: "sum_list (concat obs) = real (length obs * snd (shape obs)) * c"
    by (simp add: sum_list_const length_concat_matrix[OF m])
  from is_matrix_row[OF m i] j have "0 < snd (shape obs)" by simp
  moreover from i have "0 < length obs" by auto
  ultimately have "0 < length obs * snd (shape obs)" by simp
  with s show "sum_list (concat obs) * 1 / real (length obs * snd (shape obs)) = c" by simp
qed

text \<open>
  C4.  Without such a cell the statistic returned is the Pearson sum over the cells
  with a non-zero expected value, and the p-value is \<open>chisqprob\<close> of it with the number
  of those cells minus one as degrees of freedom; for a matrix whose cells all hold
  the same value and \<open>exp='uniform'\<close> the statistic is 0.
\<close>

theorem chisquare_statistic:
  "(is_matrix obs \<and> valid_exp obs expv \<and> expected obs expv = Inr E \<and> \<not> undefined_cell obs E
      \<longrightarrow> chisquare cp obs expv =
          Inr (pearson_statistic obs E,
               cp (pearson_statistic obs E) (int (nonzero_expected_cells obs E) - 1))) \<and>
   (is_matrix obs \<and> (\<forall>i<length obs. \<forall>j<length (obs ! i). obs ! i ! j = c)
      \<longrightarrow> (\<exists>p. chisquare cp obs (ExpName ''uniform'') = Inr (0, p)))"
proof (intro conjI impI)
  assume h: "is_matrix obs \<and> valid_exp obs expv \<and> expected obs expv = Inr E \<and> \<not> undefined_cell obs E"
  with expected_shape[of obs expv] have sh: "map length E = map length obs" by auto
  from h chisquare_cases[OF _ sh, of expv cp]
  show "chisquare cp obs expv =
          Inr (pearson_statistic obs E,
               cp (pearson_statistic obs E) (int (nonzero_expected_cells obs E) - 1))"
    by simp
next
  assume h: "is_matrix obs \<and> (\<forall>i<length obs. \<forall>j<length (obs ! i). obs ! i ! j = c)"
  then have m: "is_matrix obs" and all: "\<forall>i<length obs. \<forall>j<length (obs ! i). obs ! i ! j = c"
    by auto
  have v: "valid_exp obs (ExpName ''uniform'')" by (simp add: valid_exp_def)
  from expected_shape[OF m v] obtain E
    where ex: "expected obs (ExpName ''uniform'') = Inr E" and sh: "map length E = map length obs"
    by blast
  have entry: "E ! i ! j = c" if "i < length obs" "j < length (obs ! i)" for i j
  proof -
    from uniform_expected_entry[OF m all that] ex
    have E: "E = map (\<lambda>row. map (\<lambda>j. c) [0..<snd (shape obs)]) obs" by simp
    from is_matrix_row[OF m that(1)] that(2) have "j < snd (shape obs)" by simp
    with that(1) show ?thesis by (simp add: E)
  qed
  have nu: "\<not> undefined_cell obs E"
    using entry all by (auto simp: undefined_cell_def)
  have "pearson_statistic obs E = 0"
    unfolding pearson_statistic_def
  proof (intro sum.neutral ballI)
    fix i j assume "i \<in> {..<length obs}" "j \<in> {..<length (obs ! i)}"
    then have "E ! i ! j = c" "obs ! i ! j = c" using entry all by auto
    then show "(if E ! i ! j \<noteq> 0 then (obs ! i ! j - E ! i ! j)\<^sup>2 / E ! i ! j else 0) = 0"
      by simp
  qed
  with chisquare_cases[OF ex sh, of cp] nu
  show "\<exists>p. chisquare cp obs (ExpName ''uniform'') = Inr (0, p)" by simp
qed

theorem chisquare_statistic_witness:
  "is_matrix [[1, 2], [3, 4]] \<and> valid_exp [[1, 2], [3, 4]] (ExpName ''indep_rows'') \<and>
   expected [[1, 2], [3, 4]] (ExpName ''indep_rows'') = Inr [[2, 3], [2, 3]] \<and>
   \<not> undefined_cell [[1, 2], [3, 4]] [[2, 3], [2, 3]] \<and>
   map_sum id fst (chisquare (\<lambda>x k. 0) [[1, 2], [3, 4]] (ExpName ''indep_rows'')) = Inr (5 / 3) \<and>
   is_matrix [[2, 2], [2, 2]] \<and>
   map_sum id fst (chisquare (\<lambda>x k. 0) [[2, 2], [2, 2]] (ExpName ''uniform'')) = Inr 0"
proof -
  have a: "is_matrix [[1, 2], [3, 4]]" by (simp add: is_matrix_def shape_def)
  have b: "valid_exp [[1, 2], [3, 4]] (ExpName ''indep_rows'')" by (simp add: valid_exp_def)
  have c: "expected [[1, 2], [3, 4]] (ExpName ''indep_rows'') = Inr [[2, 3], [2, 3]]"
    by (simp add: expected_def shape_def col_sum_def Let_def upt_rec)
  have d: "\<not> undefined_cell [[1, 2], [3, 4]] [[2, 3], [2, 3]]"
    by (auto simp: undefined_cell_def nth_Cons' less_Suc_eq)
  have p: "pearson_statistic [[1, 2], [3, 4]] [[2, 3], [2, 3]] = 5 / 3"
    by (simp add: pearson_statistic_def lessThan_Suc eval_nat_numeral power2_eq_square)
  have e: "is_matrix [[2, 2], [2, 2]]" by (simp add: is_matrix_def shape_def)
  have f: "\<forall>i<length [[2, 2], [2, 2::real]]. \<forall>j<length ([[2, 2], [2, 2::real]] ! i).
      [[2, 2], [2, 2::real]] ! i ! j = 2"
    by (auto simp: nth_Cons' less_Suc_eq)
  from chisquare_statistic[of "[[1, 2], [3, 4]]" "ExpName ''indep_rows''" "[[2, 3], [2, 3]]" "\<lambda>x k. 0",
      THEN conjunct1, rule_format, OF conjI[OF a conjI[OF b conjI[OF c d]]]]
  have r1: "map_sum id fst (chisquare (\<lambda>x k. 0) [[1, 2], [3, 4]] (ExpName ''indep_rows'')) = Inr (5 / 3)"
    by (simp add: p)
  from chisquare_statistic[of "[[2, 2], [2, 2]]" _ _ "\<lambda>x k. 0" 2, THEN conjunct2, rule_format, OF conjI[OF e f]]
  have r2: "map_sum id fst (chisquare (\<lambda>x k. 0) [[2, 2], [2, 2]] (ExpName ''uniform'')) = Inr 0"
    by auto
  from a b c d e r1 r2 show ?thesis by simp
qed

subsection \<open>Dissimilarity matrices\<close>

lemma upt2: "[0..<2] = [0, Suc 0]"
  by (simp add: upt_rec)

lemma entry_zero:
  "i < 2 \<Longrightarrow> j < 2 \<Longrightarrow> ds_entry spearmanr pearsonr (Arr2 [[0], [0]]) ''euclidean'' True nf i j = Inr 0"
  by (simp add: ds_entry_def elem_def vsub_def linalg_norm_def nth_Cons' )

lemma init_zero:
  "DSMatrix_init spearmanr pearsonr (Arr2 [[0], [0]]) ''euclidean'' =
     Inr \<lparr>full_matrix = [[0, 0], [0, 0]], u_triangle = None, vector_form = None,
          metric = ''euclidean''\<rparr>"
  by (simp add: DSMatrix_init_def np_shape0_def np_size_def upt2 entry_zero Let_def)

lemma triu2: "np_triu [[a, b], [c, d]] = [[a, b], [0, d]]"
  by (simp add: np_triu_def)

lemma vector_zero:
  "get_vector_form \<lparr>full_matrix = [[0, 0], [0, 0]], u_triangle = None, vector_form = None,
          metric = ''euclidean''\<rparr> =
     ([0, 0, 0],
      \<lparr>full_matrix = [[0, 0], [0, 0]], u_triangle = None, vector_form = Some [0, 0, 0],
       metric = ''euclidean''\<rparr>)"
  by (simp add: get_vector_form_def get_full_matrix_def triu2 Let_def)


text \<open>
  C1, as amended.  With the metric \<open>euclidean\<close> the exemplars \<open>[[0], [0]]\<close> give the
  2 x 2 matrix of zeros, and \<open>get_vector_form()\<close> on it returns the vector of three
  zeros, the upper triangle with its diagonal: the zeros of the matrix are replaced
  by -1 before the triangle is taken and restored afterwards, so they are kept.
\<close>

theorem DSMatrix_zero_vectors:
  "DSMatrix_init spearmanr pearsonr (Arr2 [[0], [0]]) ''euclidean'' =
     Inr \<lparr>full_matrix = [[0, 0], [0, 0]], u_triangle = None, vector_form = None,
          metric = ''euclidean''\<rparr> \<and>
   get_full_matrix \<lparr>full_matrix = [[0, 0], [0, 0]], u_triangle = None, vector_form = None,
          metric = ''euclidean''\<rparr> = [[0, 0], [0, 0]] \<and>
   get_vector_form \<lparr>full_matrix = [[0, 0], [0, 0]], u_triangle = None, vector_form = None,
          metric = ''euclidean''\<rparr> =
     ([0, 0, 0],
      \<lparr>full_matrix = [[0, 0], [0, 0]], u_triangle = None, vector_form = Some [0, 0, 0],
       metric = ''euclidean''\<rparr>)"
  by (simp add: init_zero vector_zero get_full_matrix_def)

text \<open>
  C1 as stated fails: the vector returned for these exemplars is not empty.
\<close>

theorem DSMatrix_vector_form_counterexample:
  "DSMatrix_init (\<lambda>u v. 0) (\<lambda>u v. 0) (Arr2 [[0], [0]]) ''euclidean'' =
     Inr \<lparr>full_matrix = [[0, 0], [0, 0]], u_triangle = None, vector_form = None,
          metric = ''euclidean''\<rparr> \<and>
   fst (get_vector_form \<lparr>full_matrix = [[0, 0], [0, 0]], u_triangle = None, vector_form = None,
          metric = ''euclidean''\<rparr>) \<noteq> []"
  by (simp add: init_zero vector_zero)

text \<open>
  In general: on an object whose vector cache is empty and whose matrix holds no
  entry -1, \<open>get_vector_form()\<close> returns the upper triangle with its diagonal, row by
  row, with every value as it is in the matrix, zeros included.
\<close>

lemma triu_row:
  "map (\<lambda>(j, x). if i \<le> j then x else (0::real)) (enumerate k r)
     = replicate (min (i - k) (length r)) 0 @ drop (i - k) r"
proof (induction r arbitrary: k)
  case Nil
  then show ?case by simp
next
  case (Cons x r)
  show ?case
  proof (cases "i \<le> k")
    case True
    then have "i - k = 0" "i - Suc k = 0" by simp_all
    with True Cons.IH[of "Suc k"] show ?thesis by simp
  next
    case False
    then have "i - k = Suc (i - Suc k)" by simp
    with False Cons.IH[of "Suc k"] show ?thesis by simp
  qed
qed

lemma triu_row_selected:
  assumes "\<forall>x\<in>set r. x \<noteq> 0"
  shows "filter (\<lambda>x. x \<noteq> 0) (map (\<lambda>(j, x). if i \<le> j then x else (0::real)) (enumerate 0 r)) = drop i r"
proof -
  have "\<forall>x\<in>set (drop i r). x \<noteq> 0"
    using assms by (auto dest: in_set_dropD)
  then have "filter (\<lambda>x. x \<noteq> 0) (drop i r) = drop i r" by (simp add: filter_id_conv)
  then show ?thesis by (simp add: triu_row)
qed

lemma restore_sentinel_all:
  "\<forall>x\<in>set xs. x \<noteq> - 1 \<Longrightarrow>
   map (\<lambda>x. if x = - 1 then 0 else x) (map (\<lambda>x. if x = 0 then - 1 else (x::real)) xs) = xs"
  by (induction xs) auto

lemma restore_sentinel:
  assumes "\<forall>x\<in>set r. x \<noteq> - 1"
  shows "map (\<lambda>x. if x = - 1 then 0 else x) (drop i (map (\<lambda>x. if x = 0 then - 1 else (x::real)) r)) = drop i r"
proof -
  have "\<forall>x\<in>set (drop i r). x \<noteq> - 1"
    using assms by (auto dest: in_set_dropD)
  from restore_sentinel_all[OF this] show ?thesis by (simp only: drop_map)
qed

lemma vector_of_rows:
  assumes "\<forall>row\<in>set m. \<forall>x\<in>set row. x \<noteq> - 1"
  shows "map (\<lambda>x. if x = - 1 then 0 else x)
           (filter (\<lambda>x. x \<noteq> 0)
              (concat (map (\<lambda>(i, row). map (\<lambda>(j, x). if i \<le> j then x else (0::real)) (enumerate 0 row))
                         (enumerate k (map (map (\<lambda>x. if x = 0 then - 1 else x)) m)))))
         = concat (map (\<lambda>(i, row). drop i row) (enumerate k m))"
  using assms
proof (induction m arbitrary: k)
  case Nil
  then show ?case by simp
next
  case (Cons row m)
  have nz: "\<forall>x\<in>set (map (\<lambda>x. if x = 0 then - 1 else x) row). x \<noteq> (0::real)" by auto
  from Cons.prems have no: "\<forall>x\<in>set row. x \<noteq> - 1" and rest: "\<forall>row\<in>set m. \<forall>x\<in>set row. x \<noteq> - 1"
    by auto
  show ?case
  proof -
    have "filter (\<lambda>x. x \<noteq> 0)
            (map (\<lambda>(j, x). if k \<le> j then x else 0)
               (enumerate 0 (map (\<lambda>x. if x = 0 then - 1 else x) row)))
          = drop k (map (\<lambda>x. if x = 0 then - 1 else x) row)"
      by (rule triu_row_selected[OF nz])
    then show ?thesis
      using restore_sentinel[OF no, of k] Cons.IH[OF rest, of "Suc k"] by simp
  qed
qed

theorem get_vector_form_upper_triangle:
  assumes "vector_form self = None" and "\<forall>row\<in>set (full_matrix self). \<forall>x\<in>set row. x \<noteq> - 1"
  shows "fst (get_vector_form self) = concat (map (\<lambda>(i, row). drop i row) (enumerate 0 (full_matrix self)))"
  using assms(1) vector_of_rows[OF assms(2), of 0]
  by (simp add: get_vector_form_def get_full_matrix_def np_triu_def Let_def)

theorem get_vector_form_upper_triangle_witness:
  "fst (get_vector_form \<lparr>full_matrix = [[0, 2], [2, 0]], u_triangle = None, vector_form = None,
          metric = ''euclidean''\<rparr>) = [0, 2, 0]"
proof -
  let ?d = "\<lparr>full_matrix = [[0, 2], [2, 0::real]], u_triangle = None, vector_form = None,
          metric = ''euclidean''\<rparr>"
  have a: "vector_form ?d = None" by simp
  have b: "\<forall>row\<in>set (full_matrix ?d). \<forall>x\<in>set row. x \<noteq> - 1" by simp
  from get_vector_form_upper_triangle[OF a b] show ?thesis by simp
qed


end
